theory Spec2Isabelle
  imports Complex_Main "HOL-Library.Word" "HOL-Library.Sublist"
begin

unbundle bit_operations_syntax

section \<open>The local output store (src/output/urlHandler.ts)\<close>

text \<open>
  \<^verbatim>\<open>UrlHandler\<close> keeps its tracked files in \<^verbatim>\<open>files: Map<string, FileEntry>\<close>.
  The only writer of that map is \<^verbatim>\<open>store\<close>, by \<^verbatim>\<open>this.files.set(id, entry)\<close> with
  \<^verbatim>\<open>entry.id = id\<close>, so the key of every binding is the \<^verbatim>\<open>id\<close> field of its value.
  The map is therefore represented by the list of its values in insertion order (the
  order in which a JavaScript \<^verbatim>\<open>Map\<close> iterates), and \<^verbatim>\<open>get\<close>, \<^verbatim>\<open>set\<close> and
  \<^verbatim>\<open>delete\<close> by key work on the \<^verbatim>\<open>id\<close> field.

  Numbers: buffer lengths are naturals, clock readings (\<^verbatim>\<open>Date.now()\<close>, milliseconds) and
  the configured quotas (read by \<^verbatim>\<open>parseInt\<close>) are integers. The asynchronous code is
  modelled as one sequential run: no other request interleaves at an \<^verbatim>\<open>await\<close>.
\<close>

type_synonym bytes = "8 word list"

record FileEntry =
  id_e :: string
  filename :: string
  filepath :: string
  token :: string
  mimeType :: string
  size_e :: nat
  createdAt :: int
  expiresAt :: int
  lastAccessedAt :: int

record FileData =
  buffer :: bytes
  mimeType_d :: string
  filename_d :: string

record UrlOutputConfig =
  port :: int
  maxDiskBytes :: int
  maxFiles :: int
  ttlSeconds :: int
  baseUrl :: string
  serveDir :: string

text \<open>
  The handler's state: its configuration, the tracked entries, the \<^verbatim>\<open>ready\<close> flag and the
  files on disk (path to content) that \<^verbatim>\<open>fs.writeFile\<close> and \<^verbatim>\<open>fs.unlink\<close> act on.
\<close>

record UrlHandler =
  config :: UrlOutputConfig
  files :: "FileEntry list"
  ready :: bool
  disk :: "string \<rightharpoonup> bytes"

datatype error =
    NotInitialized
  | FileTooLarge nat
  | InvalidTimeValue

record OutputResult =
  url :: string
  expiresAt_r :: int

text \<open>What the environment hands to one \<^verbatim>\<open>store\<close> call, in the order it is read.\<close>

record store_env =
  clock_cleanup :: int
  uuid :: string
  token_hex :: string
  clock_store :: int

text \<open>\<^verbatim>\<open>new UrlHandler(config)\<close>: no file tracked, not ready.\<close>

definition new_UrlHandler :: "UrlOutputConfig \<Rightarrow> (string \<rightharpoonup> bytes) \<Rightarrow> UrlHandler" where
  "new_UrlHandler cfg d = \<lparr>config = cfg, files = [], ready = False, disk = d\<rparr>"

text \<open>\<^verbatim>\<open>this.files.get(id)\<close>, \<^verbatim>\<open>this.files.delete(id)\<close> and \<^verbatim>\<open>this.files.set(id, entry)\<close>.\<close>

definition files_get :: "string \<Rightarrow> FileEntry list \<Rightarrow> FileEntry option" where
  "files_get i es = find (\<lambda>e. id_e e = i) es"

definition files_delete :: "string \<Rightarrow> FileEntry list \<Rightarrow> FileEntry list" where
  "files_delete i es = filter (\<lambda>e. id_e e \<noteq> i) es"

fun files_set :: "string \<Rightarrow> FileEntry \<Rightarrow> FileEntry list \<Rightarrow> FileEntry list" where
  "files_set i entry [] = [entry]"
| "files_set i entry (e # es) =
     (if id_e e = i then entry # es else e # files_set i entry es)"

text \<open>
  \<^verbatim>\<open>removeFile(id)\<close>: nothing when the id is not tracked; otherwise the file is unlinked
  (a failure of \<^verbatim>\<open>fs.unlink\<close> is ignored) and the entry deleted.
\<close>

definition removeFile :: "string \<Rightarrow> UrlHandler \<Rightarrow> UrlHandler" where
  "removeFile i st =
     (case files_get i (files st) of
        None \<Rightarrow> st
      | Some entry \<Rightarrow>
          st\<lparr>disk := (disk st)(filepath entry := None),
             files := files_delete i (files st)\<rparr>)"

text \<open>\<^verbatim>\<open>cleanup()\<close>: collect the ids of the entries with \<^verbatim>\<open>now > expiresAt\<close>, then remove each.\<close>

definition expired_ids :: "int \<Rightarrow> FileEntry list \<Rightarrow> string list" where
  "expired_ids now es = map id_e (filter (\<lambda>entry. now > expiresAt entry) es)"

definition cleanup :: "int \<Rightarrow> UrlHandler \<Rightarrow> UrlHandler" where
  "cleanup now st = fold removeFile (expired_ids now (files st)) st"

text \<open>\<^verbatim>\<open>findLRU()\<close>: the first entry, in iteration order, with the least \<^verbatim>\<open>lastAccessedAt\<close>.\<close>

fun findLRU_loop :: "FileEntry option \<Rightarrow> FileEntry list \<Rightarrow> FileEntry option" where
  "findLRU_loop lru [] = lru"
| "findLRU_loop lru (entry # es) =
     findLRU_loop
       (case lru of
          None \<Rightarrow> Some entry
        | Some l \<Rightarrow> if lastAccessedAt entry < lastAccessedAt l then Some entry else Some l)
       es"

definition findLRU :: "UrlHandler \<Rightarrow> FileEntry option" where
  "findLRU st = findLRU_loop None (files st)"

text \<open>\<^verbatim>\<open>getExtension(mimeType)\<close>.\<close>

definition getExtension :: "string \<Rightarrow> string" where
  "getExtension m =
     (if m = ''video/mp4'' then ''.mp4''
      else if m = ''video/webm'' then ''.webm''
      else if m = ''image/gif'' then ''.gif''
      else if m = ''image/png'' then ''.png''
      else if m = ''image/jpeg'' then ''.jpg''
      else ''.bin'')"

text \<open>The sum of the tracked sizes, as \<^verbatim>\<open>enforceQuotas\<close> and \<^verbatim>\<open>getStatus\<close> compute it.\<close>

definition diskUsageBytes :: "FileEntry list \<Rightarrow> int" where
  "diskUsageBytes es = fold (\<lambda>f sum. sum + int (size_e f)) es 0"

lemma findLRU_loop_mem:
  "findLRU_loop lru es = Some e \<Longrightarrow> e \<in> set es \<or> lru = Some e"
  by (induction es arbitrary: lru) (auto split: option.splits if_splits)

lemma findLRU_mem: "findLRU st = Some e \<Longrightarrow> e \<in> set (files st)"
  using findLRU_loop_mem [of None "files st" e] by (simp add: findLRU_def)

lemma files_get_mem: "e \<in> set es \<Longrightarrow> \<exists>e'. files_get (id_e e) es = Some e'"
  by (induction es) (auto simp: files_get_def)

lemma length_files_delete_mem:
  "e \<in> set es \<Longrightarrow> length (files_delete (id_e e) es) < length es"
  unfolding files_delete_def
  by (induction es) (auto simp: less_Suc_eq_le intro: le_less_trans [OF length_filter_le])

lemma removeFile_LRU_shrinks:
  assumes "findLRU st = Some lru"
  shows "length (files (removeFile (id_e lru) st)) < length (files st)"
proof -
  have m: "lru \<in> set (files st)" using assms by (rule findLRU_mem)
  then obtain e' where "files_get (id_e lru) (files st) = Some e'"
    using files_get_mem by blast
  then show ?thesis
    using length_files_delete_mem [OF m] by (simp add: removeFile_def)
qed

text \<open>
  \<^verbatim>\<open>enforceQuotas\<close>, first loop:
  \<^verbatim>\<open>while (currentSize + incomingSize > maxDiskBytes && this.files.size > 0)\<close>
  removes the least recently used entry and subtracts its size from the running total.
\<close>

function evict_for_disk :: "nat \<Rightarrow> int \<Rightarrow> UrlHandler \<Rightarrow> UrlHandler" where
  "evict_for_disk incomingSize currentSize st =
     (if currentSize + int incomingSize > maxDiskBytes (config st) \<and> length (files st) > 0
      then (case findLRU st of
              Some lru \<Rightarrow>
                evict_for_disk incomingSize (currentSize - int (size_e lru))
                  (removeFile (id_e lru) st)
            | None \<Rightarrow> st)
      else st)"
  by pat_completeness auto
termination
  by (relation "measure (\<lambda>(i, c, st). length (files st))")
     (auto intro: removeFile_LRU_shrinks)

declare evict_for_disk.simps [simp del]

text \<open>
  Second loop: \<^verbatim>\<open>while (this.files.size >= maxFiles)\<close> removes the least recently used
  entry, and stops (\<^verbatim>\<open>break\<close>) when \<^verbatim>\<open>findLRU\<close> finds none.
\<close>

function evict_for_count :: "UrlHandler \<Rightarrow> UrlHandler" where
  "evict_for_count st =
     (if int (length (files st)) \<ge> maxFiles (config st)
      then (case findLRU st of
              Some lru \<Rightarrow> evict_for_count (removeFile (id_e lru) st)
            | None \<Rightarrow> st)
      else st)"
  by pat_completeness auto
termination
  by (relation "measure (\<lambda>st. length (files st))")
     (auto intro: removeFile_LRU_shrinks)

declare evict_for_count.simps [simp del]

definition enforceQuotas :: "int \<Rightarrow> nat \<Rightarrow> UrlHandler \<Rightarrow> (error + unit) \<times> UrlHandler" where
  "enforceQuotas now incomingSize st =
     (let st1 = cleanup now st;
          currentSize = diskUsageBytes (files st1)
      in if int incomingSize > maxDiskBytes (config st1)
         then (Inl (FileTooLarge incomingSize), st1)
         else (Inr (), evict_for_count (evict_for_disk incomingSize currentSize st1)))"

text \<open>
  \<^verbatim>\<open>Number.prototype.toString(radix)\<close> on a natural number, and on an integer.
\<close>

definition digit_char :: "nat \<Rightarrow> char" where
  "digit_char d = ''0123456789abcdef'' ! d"

function nat_toString :: "nat \<Rightarrow> nat \<Rightarrow> string" where
  "nat_toString radix n =
     (if radix < 2 \<or> 16 < radix then []
      else if n < radix then [digit_char n]
      else nat_toString radix (n div radix) @ [digit_char (n mod radix)])"
  by pat_completeness auto
termination
  by (relation "measure (\<lambda>(radix, n). n)") auto

declare nat_toString.simps [simp del]

definition int_toString :: "int \<Rightarrow> string" where
  "int_toString i = (if i < 0 then ''-'' @ nat_toString 10 (nat (- i)) else nat_toString 10 (nat i))"

text \<open>
  \<^verbatim>\<open>path.join(dir, name)\<close> (POSIX): the non-empty segments joined by a slash, and a dot when
  both are empty. The normalisation of dot segments and repeated slashes is not modelled.
\<close>

definition path_join :: "string \<Rightarrow> string \<Rightarrow> string" where
  "path_join dir name =
     (if dir = [] \<and> name = [] then ''.''
      else if dir = [] then name
      else if name = [] then dir
      else dir @ ''/'' @ name)"

text \<open>
  \<^verbatim>\<open>store(file)\<close>. The steps, in source order: the \<^verbatim>\<open>ready\<close> check, \<^verbatim>\<open>enforceQuotas\<close>,
  the write of the buffer, the new \<^verbatim>\<open>FileEntry\<close>, \<^verbatim>\<open>files.set\<close>, and the result, whose
  \<^verbatim>\<open>new Date(expiresAt).toISOString()\<close> raises a RangeError outside the range of valid
  JavaScript dates (8.64e15 ms either side of the epoch). The result keeps the
  expiry as the millisecond value that the ISO string denotes.
\<close>

definition store :: "store_env \<Rightarrow> FileData \<Rightarrow> UrlHandler \<Rightarrow> (error + OutputResult) \<times> UrlHandler" where
  "store env file st =
     (if \<not> ready st then (Inl NotInitialized, st)
      else
        (case enforceQuotas (clock_cleanup env) (length (buffer file)) st of
           (Inl e, st1) \<Rightarrow> (Inl e, st1)
         | (Inr u, st1) \<Rightarrow>
             (let i = uuid env;
                  tok = token_hex env;
                  ext = getExtension (mimeType_d file);
                  fname = i @ ext;
                  fpath = path_join (serveDir (config st1)) fname;
                  st2 = st1\<lparr>disk := (disk st1)(fpath \<mapsto> buffer file)\<rparr>;
                  now = clock_store env;
                  entry = \<lparr>id_e = i, filename = fname, filepath = fpath, token = tok,
                           mimeType = mimeType_d file, size_e = length (buffer file),
                           createdAt = now,
                           expiresAt = now + ttlSeconds (config st2) * 1000,
                           lastAccessedAt = now\<rparr>;
                  st3 = st2\<lparr>files := files_set i entry (files st2)\<rparr>;
                  base = (if baseUrl (config st3) \<noteq> [] then baseUrl (config st3)
                          else ''http://localhost:'' @ int_toString (port (config st3)));
                  u = base @ ''/files/'' @ fname @ ''?token='' @ tok
              in if \<bar>expiresAt entry\<bar> > 8640000000000000
                 then (Inl InvalidTimeValue, st3)
                 else (Inr \<lparr>url = u, expiresAt_r = expiresAt entry\<rparr>, st3))))"

subsection \<open>Retrieval: the route GET /files/:filename\<close>

text \<open>
  The response of the route. The token of the query string may be missing (\<open>None\<close>).
  The handler reads the clock twice: for the expiry check and for \<^verbatim>\<open>lastAccessedAt\<close>.

  \<^verbatim>\<open>res.sendFile(path)\<close> is the framework's (Express). For a plain GET it is modelled by what
  it does with the path and the disk: for a path that is not absolute it throws (path must
  be absolute or specify root), which the framework answers with status 500; for a path
  that holds no file it answers 404; otherwise it streams the file with status 200 and
  the headers that the handler has set. On the two failures the framework sends its own
  error page in place of the handler's headers. Absolute is POSIX absolute: the path
  starts with a slash. Range and conditional requests, and the framework's policy on
  hidden path components, are not modelled.
\<close>

datatype body = JsonError string | FileBody bytes | ErrorPage

record Response =
  status :: nat
  contentType :: "string option"
  contentDisposition :: "string option"
  body :: body

definition is_absolute :: "string \<Rightarrow> bool" where
  "is_absolute p = (case p of [] \<Rightarrow> False | c # cs \<Rightarrow> c = CHR ''/'')"

definition sendFile ::
  "string option \<Rightarrow> string option \<Rightarrow> string \<Rightarrow> (string \<rightharpoonup> bytes) \<Rightarrow> Response" where
  "sendFile ctype cdisp path d =
     (if \<not> is_absolute path then
        \<lparr>status = 500, contentType = None, contentDisposition = None, body = ErrorPage\<rparr>
      else
        (case d path of
           None \<Rightarrow>
             \<lparr>status = 404, contentType = None, contentDisposition = None, body = ErrorPage\<rparr>
         | Some data \<Rightarrow>
             \<lparr>status = 200, contentType = ctype, contentDisposition = cdisp,
              body = FileBody data\<rparr>))"

fun touch :: "string \<Rightarrow> int \<Rightarrow> FileEntry list \<Rightarrow> FileEntry list" where
  "touch fname t [] = []"
| "touch fname t (e # es) =
     (if filename e = fname then e\<lparr>lastAccessedAt := t\<rparr> # es else e # touch fname t es)"

text \<open>
  The handler: lines 60 to 73 are the three checks; line 75 writes \<^verbatim>\<open>lastAccessedAt\<close>,
  lines 76 and 77 set the two headers, and line 78 calls \<^verbatim>\<open>res.sendFile\<close>, so the write
  to the entry is made whatever the send then answers.
\<close>

definition getFile ::
  "int \<Rightarrow> int \<Rightarrow> string \<Rightarrow> string option \<Rightarrow> UrlHandler \<Rightarrow> Response \<times> UrlHandler" where
  "getFile now_check now_touch fname tok st =
     (case find (\<lambda>f. filename f = fname) (files st) of
        None \<Rightarrow>
          (\<lparr>status = 404, contentType = None, contentDisposition = None,
            body = JsonError ''File not found''\<rparr>, st)
      | Some entry \<Rightarrow>
          if Some (token entry) \<noteq> tok then
            (\<lparr>status = 403, contentType = None, contentDisposition = None,
              body = JsonError ''Invalid token''\<rparr>, st)
          else if now_check > expiresAt entry then
            (\<lparr>status = 410, contentType = None, contentDisposition = None,
              body = JsonError ''File expired''\<rparr>, st)
          else
            (sendFile (Some (mimeType entry))
               (Some (''inline; filename='' @ [CHR 0x22] @ filename entry @ [CHR 0x22]))
               (filepath entry) (disk st),
             st\<lparr>files := touch fname now_touch (files st)\<rparr>))"

text \<open>The entry that a successful store call creates.\<close>

definition new_entry :: "store_env \<Rightarrow> FileData \<Rightarrow> UrlOutputConfig \<Rightarrow> FileEntry" where
  "new_entry env file cfg =
     \<lparr>id_e = uuid env,
      filename = uuid env @ getExtension (mimeType_d file),
      filepath = path_join (serveDir cfg) (uuid env @ getExtension (mimeType_d file)),
      token = token_hex env,
      mimeType = mimeType_d file,
      size_e = length (buffer file),
      createdAt = clock_store env,
      expiresAt = clock_store env + ttlSeconds cfg * 1000,
      lastAccessedAt = clock_store env\<rparr>"

text \<open>An entry with its access time blanked: what a request may not change.\<close>

definition forget_access :: "FileEntry \<Rightarrow> FileEntry" where
  "forget_access e = e\<lparr>lastAccessedAt := 0\<rparr>"

section \<open>The bundle cache (DynamicBundler in src/render/engine.ts)\<close>

text \<open>
  \<^verbatim>\<open>hashCode(str)\<close>: \<^verbatim>\<open>hash = ((hash << 5) - hash) + char; hash = hash & hash\<close> for every
  UTF-16 code unit, then \<^verbatim>\<open>Math.abs(hash).toString(16)\<close>. At the start of every round
  \<^verbatim>\<open>hash\<close> is a 32-bit integer, the sum is exact in a double, and \<^verbatim>\<open>hash & hash\<close> reduces
  it to 32 bits again: the loop is arithmetic modulo \<open>2 ^ 32\<close>, read as a signed value at
  the end. Strings are modelled with 8-bit characters, so the code units are below 256.
\<close>

definition charCodeAt :: "char \<Rightarrow> 32 word" where
  "charCodeAt c = of_nat (of_char c)"

definition hash_step :: "32 word \<Rightarrow> char \<Rightarrow> 32 word" where
  "hash_step hash c = (push_bit 5 hash - hash) + charCodeAt c"

definition hashCode :: "string \<Rightarrow> string" where
  "hashCode str = nat_toString 16 (nat \<bar>sint (fold (\<lambda>c hash. hash_step hash c) str 0)\<bar>)"

definition cacheKey :: "string \<Rightarrow> string \<Rightarrow> string" where
  "cacheKey templateName templateCode = templateName @ ''-'' @ hashCode templateCode"

section \<open>The render job and the bundle cache: model\<close>

subsection \<open>The file system\<close>

text \<open>
  Both classes work on the file system through \<^verbatim>\<open>fs/promises\<close>. It is modelled as a map
  from paths to nodes. A file written by \<^verbatim>\<open>createProjectStructure\<close> holds either the
  template code or one of the fixed texts of the scaffold, which is named, not copied.
  \<^verbatim>\<open>Buffer.from(text)\<close> and the bytes read back are the text itself. A path lies under a
  directory when it is the directory or continues it after a slash. Of the calls made,
  the models of \<^verbatim>\<open>mkdir\<close> and \<^verbatim>\<open>writeFile\<close> always succeed; \<^verbatim>\<open>readFile\<close> fails on a path
  that holds no file.
\<close>

datatype content = Data string | Scaffold string

datatype node = Dir | File content

type_synonym fsys = "string \<rightharpoonup> node"

definition is_under :: "string \<Rightarrow> string \<Rightarrow> bool" where
  "is_under dir p \<longleftrightarrow> p = dir \<or> prefix (dir @ ''/'') p"

text \<open>\<^verbatim>\<open>fs.rm(dir, { recursive: true, force: true })\<close>, when it succeeds.\<close>

definition fs_rm :: "string \<Rightarrow> fsys \<Rightarrow> fsys" where
  "fs_rm dir fs = (\<lambda>p. if is_under dir p then None else fs p)"

text \<open>\<^verbatim>\<open>fs.mkdir(dir, { recursive: true })\<close>.\<close>

definition fs_mkdir :: "string \<Rightarrow> fsys \<Rightarrow> fsys" where
  "fs_mkdir dir fs = (case fs dir of None \<Rightarrow> fs(dir \<mapsto> Dir) | Some n \<Rightarrow> fs)"

definition fs_writeFile :: "string \<Rightarrow> content \<Rightarrow> fsys \<Rightarrow> fsys" where
  "fs_writeFile p c fs = fs(p \<mapsto> File c)"

text \<open>\<^verbatim>\<open>fs.access(p)\<close>: does the path exist.\<close>

definition fs_access :: "string \<Rightarrow> fsys \<Rightarrow> bool" where
  "fs_access p fs \<longleftrightarrow> fs p \<noteq> None"

datatype engine_error =
    BundlerNotAvailable
  | Thrown string
  | NoSuchFile string

definition fs_readFile :: "string \<Rightarrow> fsys \<Rightarrow> engine_error + string" where
  "fs_readFile p fs =
     (case fs p of
        Some (File (Data d)) \<Rightarrow> Inr d
      | Some (File (Scaffold n)) \<Rightarrow> Inr n
      | _ \<Rightarrow> Inl (NoSuchFile p))"

subsection \<open>JavaScript numbers\<close>

text \<open>
  A JavaScript number is an IEEE 754 double: a finite value, an infinity, or NaN. A finite
  double is kept as the rational it denotes; the two zeros are not told apart (no
  operation of the engine distinguishes them). The result of an addition or a
  multiplication of finite doubles is the exact result rounded to the nearest double,
  ties to the even significand, as \<open>round_double\<close> computes it: \<open>binade x\<close> is the
  exponent \<open>e\<close> with \<open>2 ^ e \<le> |x| < 2 ^ (e + 1)\<close>, raised to \<open>- 1022\<close> in the subnormal
  range; the spacing of the doubles there is \<open>2 ^ (e - 52)\<close>; and a rounded magnitude of
  \<open>2 ^ 1024\<close> or more is an infinity.
\<close>

datatype number = Finite rat | PosInf | NegInf | NaN

function bit_length :: "int \<Rightarrow> int" where
  "bit_length n = (if n \<le> 0 then 0 else 1 + bit_length (n div 2))"
  by pat_completeness auto
termination
  by (relation "measure nat") auto

declare bit_length.simps [simp del]

definition binade :: "rat \<Rightarrow> int" where
  "binade x =
     (if 1 \<le> \<bar>x\<bar> then bit_length \<lfloor>\<bar>x\<bar>\<rfloor> - 1
      else - bit_length (\<lceil>1 / \<bar>x\<bar>\<rceil> - 1))"

definition round_half_even :: "rat \<Rightarrow> int" where
  "round_half_even q =
     (let f = \<lfloor>q\<rfloor>; r = q - of_int f
      in if r < 1 / 2 then f
         else if 1 / 2 < r then f + 1
         else if even f then f else f + 1)"

definition round_double :: "rat \<Rightarrow> number" where
  "round_double x =
     (if x = 0 then Finite 0
      else
        (let e = max (binade x) (- 1022);
             ulp = 2 powi (e - 52);
             r = of_int (round_half_even (x / ulp)) * ulp
         in if 2 powi 1024 \<le> \<bar>r\<bar> then (if 0 < x then PosInf else NegInf)
            else Finite r))"

text \<open>\<^verbatim>\<open>a + b\<close>, \<^verbatim>\<open>a * b\<close> and \<^verbatim>\<open>Math.ceil(a)\<close> on numbers.\<close>

fun js_add :: "number \<Rightarrow> number \<Rightarrow> number" where
  "js_add (Finite x) (Finite y) = round_double (x + y)"
| "js_add NaN b = NaN"
| "js_add a NaN = NaN"
| "js_add PosInf NegInf = NaN"
| "js_add NegInf PosInf = NaN"
| "js_add PosInf b = PosInf"
| "js_add a PosInf = PosInf"
| "js_add NegInf b = NegInf"
| "js_add a NegInf = NegInf"

fun js_mul :: "number \<Rightarrow> number \<Rightarrow> number" where
  "js_mul (Finite x) (Finite y) = round_double (x * y)"
| "js_mul NaN b = NaN"
| "js_mul a NaN = NaN"
| "js_mul (Finite x) PosInf = (if x = 0 then NaN else if 0 < x then PosInf else NegInf)"
| "js_mul (Finite x) NegInf = (if x = 0 then NaN else if 0 < x then NegInf else PosInf)"
| "js_mul PosInf (Finite y) = (if y = 0 then NaN else if 0 < y then PosInf else NegInf)"
| "js_mul NegInf (Finite y) = (if y = 0 then NaN else if 0 < y then NegInf else PosInf)"
| "js_mul PosInf PosInf = PosInf"
| "js_mul NegInf NegInf = PosInf"
| "js_mul PosInf NegInf = NegInf"
| "js_mul NegInf PosInf = NegInf"

fun js_ceil :: "number \<Rightarrow> number" where
  "js_ceil (Finite x) = Finite (of_int \<lceil>x\<rceil>)"
| "js_ceil a = a"

declare js_add.simps(1) [simp del]
declare js_mul.simps(1) [simp del]

subsection \<open>Render parameters and the rendering backend\<close>

text \<open>
  The \<^verbatim>\<open>content\<close> of a scene is opaque to the engine and kept as a list of keys with
  the text of their values. \<^verbatim>\<open>a || d\<close> on an optional number takes the default for a missing
  value, for 0 and for NaN.
\<close>

datatype format = Mp4 | Webm | Gif

datatype image_format = Png | Jpeg

record Scene =
  type_sc :: string
  duration :: number
  content_sc :: "(string \<times> string) list"

record Theme =
  primaryColor :: "string option"
  secondaryColor :: "string option"
  backgroundColor :: "string option"
  fontFamily :: "string option"

record video_settings =
  width_s :: "number option"
  height_s :: "number option"
  fps_s :: "number option"
  format_s :: "format option"

record RenderVideoParams =
  scenes :: "Scene list"
  theme :: "Theme option"
  settings :: "video_settings option"

record image_settings =
  width_i :: "number option"
  height_i :: "number option"
  format_i :: "image_format option"

record RenderImageParams =
  scene :: Scene
  theme_i :: "Theme option"
  settings_i :: "image_settings option"
  frame :: "number option"

record metadata =
  duration_m :: "number option"
  width_m :: number
  height_m :: number
  fps_m :: "number option"

record RenderResult =
  buffer_r :: string
  mimeType_r :: string
  metadata_r :: metadata

record RenderConfig =
  concurrency :: int
  timeoutPerFrame :: int
  workDir :: string

definition num_or :: "number option \<Rightarrow> number \<Rightarrow> number" where
  "num_or v d =
     (case v of None \<Rightarrow> d | Some x \<Rightarrow> if x = Finite 0 \<or> x = NaN then d else x)"

definition format_name :: "format \<Rightarrow> string" where
  "format_name f = (case f of Mp4 \<Rightarrow> ''mp4'' | Webm \<Rightarrow> ''webm'' | Gif \<Rightarrow> ''gif'')"

definition image_format_name :: "image_format \<Rightarrow> string" where
  "image_format_name f = (case f of Png \<Rightarrow> ''png'' | Jpeg \<Rightarrow> ''jpeg'')"

text \<open>\<^verbatim>\<open>getCodec(format)\<close> and \<^verbatim>\<open>getMimeType(format)\<close>.\<close>

definition getCodec :: "string \<Rightarrow> string" where
  "getCodec f = (if f = ''webm'' then ''vp8'' else if f = ''gif'' then ''gif'' else ''h264'')"

definition getMimeType :: "string \<Rightarrow> string" where
  "getMimeType f =
     (if f = ''webm'' then ''video/webm'' else if f = ''gif'' then ''image/gif'' else ''video/mp4'')"

text \<open>
  The external packages. A call of the backend gets the file system, may change it in
  any way, and either returns a value or throws (\<open>Inl\<close> with the message).
  \<^verbatim>\<open>@remotion/bundler\<close> offers \<^verbatim>\<open>bundle({entryPoint, outDir})\<close>; \<^verbatim>\<open>@remotion/renderer\<close> offers
  \<^verbatim>\<open>selectComposition\<close>, \<^verbatim>\<open>renderMedia\<close> and \<^verbatim>\<open>renderStill\<close>.
\<close>

record composition =
  id_c :: string
  width_c :: number
  height_c :: number
  fps_c :: number
  durationInFrames :: number
  rest_c :: string

record inputProps =
  scenes_p :: "Scene list"
  theme_p :: Theme

record renderMedia_options =
  composition_o :: composition
  serveUrl :: string
  codec :: string
  outputLocation :: string
  inputProps_o :: inputProps
  concurrency_o :: int

record renderStill_options =
  composition_t :: composition
  serveUrl_t :: string
  output_t :: string
  frame_t :: number
  inputProps_t :: inputProps
  imageFormat :: string

type_synonym bundler_api = "string \<Rightarrow> string \<Rightarrow> fsys \<Rightarrow> (string + string) \<times> fsys"

record renderer_api =
  selectComposition :: "string \<Rightarrow> string \<Rightarrow> inputProps \<Rightarrow> fsys \<Rightarrow> (string + composition) \<times> fsys"
  renderMedia :: "renderMedia_options \<Rightarrow> fsys \<Rightarrow> (string + unit) \<times> fsys"
  renderStill :: "renderStill_options \<Rightarrow> fsys \<Rightarrow> (string + unit) \<times> fsys"

text \<open>
  The world outside the two objects: the file system, and a log of the calls made to the
  backend (the number of \<^verbatim>\<open>bundle\<close> calls, the options of every \<^verbatim>\<open>renderMedia\<close> and
  \<^verbatim>\<open>renderStill\<close> call), kept to state what the backend was asked.
\<close>

record world =
  fsys :: fsys
  compile_calls :: nat
  media_calls :: "renderMedia_options list"
  still_calls :: "renderStill_options list"

subsection \<open>DynamicBundler\<close>

record DynamicBundler =
  cacheDir :: string
  bundleCache :: "string \<rightharpoonup> string"
  bundler :: "bundler_api option"

text \<open>The \<^verbatim>\<open>cleanup\<close> function of a \<^verbatim>\<open>BundleResult\<close>, by what it does when called.\<close>

datatype cleanup_fn = Noop | RmProject string

record BundleResult =
  bundlePath :: string
  cleanup_b :: cleanup_fn

definition run_cleanup :: "cleanup_fn \<Rightarrow> world \<Rightarrow> world" where
  "run_cleanup c w =
     (case c of Noop \<Rightarrow> w | RmProject projectDir \<Rightarrow> w\<lparr>fsys := fs_rm projectDir (fsys w)\<rparr>)"

text \<open>
  \<^verbatim>\<open>createProjectStructure(projectDir, templateCode)\<close>: the \<^verbatim>\<open>src\<close> directory and six files.
\<close>

definition createProjectStructure :: "string \<Rightarrow> string \<Rightarrow> fsys \<Rightarrow> fsys" where
  "createProjectStructure projectDir templateCode fs =
     (let srcDir = path_join projectDir ''src'';
          fs1 = fs_mkdir srcDir fs;
          fs2 = fs_writeFile (path_join projectDir ''package.json'') (Scaffold ''package.json'') fs1;
          fs3 = fs_writeFile (path_join projectDir ''remotion.config.ts'')
                  (Scaffold ''remotion.config.ts'') fs2;
          fs4 = fs_writeFile (path_join srcDir ''Template.tsx'') (Data templateCode) fs3;
          fs5 = fs_writeFile (path_join srcDir ''Root.tsx'') (Scaffold ''Root.tsx'') fs4;
          fs6 = fs_writeFile (path_join srcDir ''index.ts'') (Scaffold ''index.ts'') fs5
      in fs_writeFile (path_join projectDir ''tsconfig.json'') (Scaffold ''tsconfig.json'') fs6)"

text \<open>
  \<^verbatim>\<open>bundle(templateCode, templateName)\<close>, in two parts: the cache lookup, and the build on a
  miss. \<^verbatim>\<open>if (cachedPath)\<close> is false for a missing entry and for the empty string. The
  argument \<open>project_uuid\<close> is the value of \<^verbatim>\<open>randomUUID()\<close>.
\<close>

definition bundle_build ::
  "string \<Rightarrow> string \<Rightarrow> string \<Rightarrow> DynamicBundler \<times> world
     \<Rightarrow> (engine_error + BundleResult) \<times> DynamicBundler \<times> world" where
  "bundle_build templateCode key project_uuid bw =
     (case bw of (b, w) \<Rightarrow>
        (case bundler b of
           None \<Rightarrow> (Inl BundlerNotAvailable, b, w)
         | Some bk \<Rightarrow>
             (let projectDir = path_join (cacheDir b) (''project-'' @ project_uuid);
                  bundleDir = path_join (cacheDir b) (''bundle-'' @ key);
                  fs1 = createProjectStructure projectDir templateCode (fsys w);
                  r = bk (path_join (path_join projectDir ''src'') ''index.ts'') bundleDir fs1;
                  w2 = w\<lparr>fsys := snd r, compile_calls := Suc (compile_calls w)\<rparr>
              in case fst r of
                   Inr p \<Rightarrow>
                     (Inr \<lparr>bundlePath = p, cleanup_b = RmProject projectDir\<rparr>,
                      b\<lparr>bundleCache := (bundleCache b)(key \<mapsto> p)\<rparr>, w2)
                 | Inl msg \<Rightarrow>
                     (Inl (Thrown msg), b,
                      w2\<lparr>fsys := fs_rm bundleDir (fs_rm projectDir (fsys w2))\<rparr>))))"

definition "bundle" ::
  "string \<Rightarrow> string \<Rightarrow> string \<Rightarrow> DynamicBundler \<times> world
     \<Rightarrow> (engine_error + BundleResult) \<times> DynamicBundler \<times> world" where
  "bundle templateCode templateName project_uuid bw =
     (case bw of (b, w) \<Rightarrow>
        (let key = cacheKey templateName templateCode
         in case bundleCache b key of
              None \<Rightarrow> bundle_build templateCode key project_uuid (b, w)
            | Some cachedPath \<Rightarrow>
                if cachedPath \<noteq> [] then
                  (if fs_access cachedPath (fsys w)
                   then (Inr \<lparr>bundlePath = cachedPath, cleanup_b = Noop\<rparr>, b, w)
                   else bundle_build templateCode key project_uuid
                          (b\<lparr>bundleCache := (bundleCache b)(key := None)\<rparr>, w))
                else bundle_build templateCode key project_uuid (b, w)))"

subsection \<open>RenderEngine\<close>

record RenderEngine =
  config_e :: RenderConfig
  renderer :: "renderer_api option"
  bundler_e :: DynamicBundler
  defaultTemplateCode :: string

text \<open>
  What the environment decides in one render call: the two values of \<^verbatim>\<open>randomUUID()\<close> (for
  the working directory and for the bundler's project directory), whether the final
  \<^verbatim>\<open>fs.rm(workDir)\<close> fails (the failure is caught by \<^verbatim>\<open>.catch(() => {})\<close>; a failed
  deletion is taken to delete nothing), and the texts that \<^verbatim>\<open>JSON.stringify\<close> gives for
  the parameters.
\<close>

record job_env =
  workdir_uuid :: string
  project_uuid :: string
  rm_fails :: bool
  stringify_v :: "RenderVideoParams \<Rightarrow> string"
  stringify_i :: "RenderImageParams \<Rightarrow> string"

text \<open>\<^verbatim>\<open>params.scenes.reduce((sum, s) => sum + s.duration, 0)\<close>.\<close>

definition totalDuration :: "Scene list \<Rightarrow> number" where
  "totalDuration ss = fold (\<lambda>s sum. js_add sum (duration s)) ss (Finite 0)"

definition pick_code :: "string option \<Rightarrow> string \<Rightarrow> string" where
  "pick_code templateCode dflt =
     (case templateCode of None \<Rightarrow> dflt | Some c \<Rightarrow> if c \<noteq> [] then c else dflt)"

definition empty_theme :: Theme where
  "empty_theme = \<lparr>primaryColor = None, secondaryColor = None, backgroundColor = None,
                   fontFamily = None\<rparr>"

definition theme_or_empty :: "Theme option \<Rightarrow> Theme" where
  "theme_or_empty t = (case t of None \<Rightarrow> empty_theme | Some x \<Rightarrow> x)"

text \<open>
  The end of the \<^verbatim>\<open>try\<close> block of \<^verbatim>\<open>renderVideo\<close>: read the output file and build the
  result.
\<close>

definition video_result ::
  "string \<Rightarrow> string \<Rightarrow> metadata \<Rightarrow> RenderEngine \<times> world
     \<Rightarrow> (engine_error + RenderResult) \<times> RenderEngine \<times> world" where
  "video_result outputPath mime md ew =
     (case ew of (e, w) \<Rightarrow>
        (case fs_readFile outputPath (fsys w) of
           Inl err \<Rightarrow> (Inl err, e, w)
         | Inr buf \<Rightarrow> (Inr \<lparr>buffer_r = buf, mimeType_r = mime, metadata_r = md\<rparr>, e, w)))"

text \<open>The \<^verbatim>\<open>try\<close> block of \<^verbatim>\<open>renderVideo\<close>, after the parameters are resolved.\<close>

definition renderVideo_try ::
  "job_env \<Rightarrow> RenderVideoParams \<Rightarrow> string option \<Rightarrow> string \<Rightarrow> RenderEngine \<times> world
     \<Rightarrow> (engine_error + RenderResult) \<times> RenderEngine \<times> world" where
  "renderVideo_try env params templateCode wd ew =
     (case ew of (e, w0) \<Rightarrow>
       (let fmt = (case settings params of None \<Rightarrow> Mp4
                   | Some s \<Rightarrow> (case format_s s of None \<Rightarrow> Mp4 | Some f \<Rightarrow> f));
            outputPath = path_join wd (''output.'' @ format_name fmt);
            width = num_or (case settings params of None \<Rightarrow> None | Some s \<Rightarrow> width_s s)
                      (Finite 1920);
            height = num_or (case settings params of None \<Rightarrow> None | Some s \<Rightarrow> height_s s)
                       (Finite 1080);
            fps = num_or (case settings params of None \<Rightarrow> None | Some s \<Rightarrow> fps_s s)
                    (Finite 30);
            total = totalDuration (scenes params);
            frames = js_ceil (js_mul total fps);
            md = \<lparr>duration_m = Some total, width_m = width, height_m = height,
                  fps_m = Some fps\<rparr>;
            mime = getMimeType (format_name fmt);
            w = w0\<lparr>fsys := fs_mkdir wd (fsys w0)\<rparr>
        in case renderer e of
             None \<Rightarrow>
               video_result outputPath mime md
                 (e, w\<lparr>fsys := fs_writeFile outputPath
                                  (Data (''Mock video: '' @ stringify_v env params)) (fsys w)\<rparr>)
           | Some r \<Rightarrow>
               (case bundle (pick_code templateCode (defaultTemplateCode e)) ''universal''
                       (project_uuid env) (bundler_e e, w) of
                  (Inl err, b1, w1) \<Rightarrow> (Inl err, e\<lparr>bundler_e := b1\<rparr>, w1)
                | (Inr br, b1, w1) \<Rightarrow>
                    (let e1 = e\<lparr>bundler_e := b1\<rparr>;
                         props = \<lparr>scenes_p = scenes params,
                                  theme_p = theme_or_empty (theme params)\<rparr>;
                         sel = selectComposition r (bundlePath br) ''Main'' props (fsys w1);
                         w2 = w1\<lparr>fsys := snd sel\<rparr>
                     in case fst sel of
                          Inl msg \<Rightarrow> (Inl (Thrown msg), e1, run_cleanup (cleanup_b br) w2)
                        | Inr selected \<Rightarrow>
                            (let opts = \<lparr>composition_o =
                                          selected\<lparr>width_c := width, height_c := height,
                                               fps_c := fps, durationInFrames := frames\<rparr>,
                                        serveUrl = bundlePath br,
                                        codec = getCodec (format_name fmt),
                                        outputLocation = outputPath,
                                        inputProps_o = props,
                                        concurrency_o = concurrency (config_e e)\<rparr>;
                                 ren = renderMedia r opts (fsys w2);
                                 w3 = w2\<lparr>fsys := snd ren,
                                         media_calls := media_calls w2 @ [opts]\<rparr>;
                                 w4 = run_cleanup (cleanup_b br) w3
                             in case fst ren of
                                  Inl msg \<Rightarrow> (Inl (Thrown msg), e1, w4)
                                | Inr u \<Rightarrow> video_result outputPath mime md (e1, w4))))))"

text \<open>
  The \<^verbatim>\<open>finally\<close> block shared by both render methods:
  \<^verbatim>\<open>await fs.rm(workDir, { recursive: true, force: true }).catch(() => {})\<close>.
\<close>

definition finally_rm :: "job_env \<Rightarrow> string \<Rightarrow> world \<Rightarrow> world" where
  "finally_rm env wd w = (if rm_fails env then w else w\<lparr>fsys := fs_rm wd (fsys w)\<rparr>)"

definition job_workDir :: "job_env \<Rightarrow> RenderEngine \<Rightarrow> string" where
  "job_workDir env e = path_join (workDir (config_e e)) (workdir_uuid env)"

definition renderVideo ::
  "job_env \<Rightarrow> RenderVideoParams \<Rightarrow> string option \<Rightarrow> RenderEngine \<times> world
     \<Rightarrow> (engine_error + RenderResult) \<times> RenderEngine \<times> world" where
  "renderVideo env params templateCode ew =
     (case renderVideo_try env params templateCode (job_workDir env (fst ew)) ew of
        (res, e1, w1) \<Rightarrow> (res, e1, finally_rm env (job_workDir env (fst ew)) w1))"

text \<open>The \<^verbatim>\<open>try\<close> block of \<^verbatim>\<open>renderImage\<close>; \<^verbatim>\<open>params.frame ?? 15\<close> keeps a frame of 0.\<close>

definition renderImage_try ::
  "job_env \<Rightarrow> RenderImageParams \<Rightarrow> string option \<Rightarrow> string \<Rightarrow> RenderEngine \<times> world
     \<Rightarrow> (engine_error + RenderResult) \<times> RenderEngine \<times> world" where
  "renderImage_try env params templateCode wd ew =
     (case ew of (e, w0) \<Rightarrow>
       (let fmt = (case settings_i params of None \<Rightarrow> Png
                   | Some s \<Rightarrow> (case format_i s of None \<Rightarrow> Png | Some f \<Rightarrow> f));
            outputPath = path_join wd (''output.'' @ image_format_name fmt);
            width = num_or (case settings_i params of None \<Rightarrow> None | Some s \<Rightarrow> width_i s)
                      (Finite 1920);
            height = num_or (case settings_i params of None \<Rightarrow> None | Some s \<Rightarrow> height_i s)
                       (Finite 1080);
            md = \<lparr>duration_m = None, width_m = width, height_m = height, fps_m = None\<rparr>;
            mime = (if fmt = Jpeg then ''image/jpeg'' else ''image/png'');
            w = w0\<lparr>fsys := fs_mkdir wd (fsys w0)\<rparr>
        in case renderer e of
             None \<Rightarrow>
               video_result outputPath mime md
                 (e, w\<lparr>fsys := fs_writeFile outputPath
                                  (Data (''Mock image: '' @ stringify_i env params)) (fsys w)\<rparr>)
           | Some r \<Rightarrow>
               (case bundle (pick_code templateCode (defaultTemplateCode e)) ''universal''
                       (project_uuid env) (bundler_e e, w) of
                  (Inl err, b1, w1) \<Rightarrow> (Inl err, e\<lparr>bundler_e := b1\<rparr>, w1)
                | (Inr br, b1, w1) \<Rightarrow>
                    (let e1 = e\<lparr>bundler_e := b1\<rparr>;
                         props = \<lparr>scenes_p = [scene params],
                                  theme_p = theme_or_empty (theme_i params)\<rparr>;
                         sel = selectComposition r (bundlePath br) ''Main'' props (fsys w1);
                         w2 = w1\<lparr>fsys := snd sel\<rparr>
                     in case fst sel of
                          Inl msg \<Rightarrow> (Inl (Thrown msg), e1, run_cleanup (cleanup_b br) w2)
                        | Inr selected \<Rightarrow>
                            (let opts = \<lparr>composition_t =
                                          selected\<lparr>width_c := width, height_c := height,
                                               fps_c := Finite 30,
                                               durationInFrames :=
                                                 js_ceil (js_mul (duration (scene params))
                                                            (Finite 30))\<rparr>,
                                        serveUrl_t = bundlePath br,
                                        output_t = outputPath,
                                        frame_t = (case frame params of None \<Rightarrow> Finite 15 | Some f \<Rightarrow> f),
                                        inputProps_t = props,
                                        imageFormat = image_format_name fmt\<rparr>;
                                 ren = renderStill r opts (fsys w2);
                                 w3 = w2\<lparr>fsys := snd ren,
                                         still_calls := still_calls w2 @ [opts]\<rparr>;
                                 w4 = run_cleanup (cleanup_b br) w3
                             in case fst ren of
                                  Inl msg \<Rightarrow> (Inl (Thrown msg), e1, w4)
                                | Inr u \<Rightarrow> video_result outputPath mime md (e1, w4))))))"

definition renderImage ::
  "job_env \<Rightarrow> RenderImageParams \<Rightarrow> string option \<Rightarrow> RenderEngine \<times> world
     \<Rightarrow> (engine_error + RenderResult) \<times> RenderEngine \<times> world" where
  "renderImage env params templateCode ew =
     (case renderImage_try env params templateCode (job_workDir env (fst ew)) ew of
        (res, e1, w1) \<Rightarrow> (res, e1, finally_rm env (job_workDir env (fst ew)) w1))"

section \<open>Concrete inputs\<close>

text \<open>Small stores, engines and requests on which the statements below are run.\<close>

definition cfg_small :: "int \<Rightarrow> UrlOutputConfig" where
  "cfg_small maxf =
     \<lparr>port = 8081, maxDiskBytes = 10, maxFiles = maxf, ttlSeconds = 1,
      baseUrl = [], serveDir = ''/srv''\<rparr>"

definition env1 :: store_env where
  "env1 = \<lparr>clock_cleanup = 1000, uuid = ''u1'', token_hex = ''t1'', clock_store = 1000\<rparr>"

definition env2 :: store_env where
  "env2 = \<lparr>clock_cleanup = 1500, uuid = ''u2'', token_hex = ''t2'', clock_store = 1501\<rparr>"

definition file1 :: FileData where
  "file1 = \<lparr>buffer = [1], mimeType_d = ''video/mp4'', filename_d = ''a.mp4''\<rparr>"

definition file_big :: FileData where
  "file_big = \<lparr>buffer = replicate 11 0, mimeType_d = ''image/png'', filename_d = ''b.png''\<rparr>"

text \<open>An initialised store (\<^verbatim>\<open>ready\<close> set by \<^verbatim>\<open>initialize\<close>) that tracks nothing yet.\<close>

definition ready_store :: "int \<Rightarrow> UrlHandler" where
  "ready_store maxf = (new_UrlHandler (cfg_small maxf) Map.empty)\<lparr>ready := True\<rparr>"

definition env3 :: store_env where
  "env3 = \<lparr>clock_cleanup = 2200, uuid = ''u3'', token_hex = ''t3'', clock_store = 2201\<rparr>"

definition entry_u1 :: FileEntry where
  "entry_u1 = \<lparr>id_e = ''u1'', filename = ''u1.mp4'', filepath = ''/srv/u1.mp4'', token = ''t1'',
     mimeType = ''video/mp4'', size_e = 1, createdAt = 1000, expiresAt = 2000,
     lastAccessedAt = 1000\<rparr>"

definition entry_u2 :: FileEntry where
  "entry_u2 = \<lparr>id_e = ''u2'', filename = ''u2.mp4'', filepath = ''/srv/u2.mp4'', token = ''t2'',
     mimeType = ''video/mp4'', size_e = 1, createdAt = 1501, expiresAt = 2501,
     lastAccessedAt = 1501\<rparr>"

definition store_one :: UrlHandler where
  "store_one = snd (store env1 file1 (ready_store 3))"

definition store_two :: UrlHandler where
  "store_two = snd (store env2 file1 store_one)"



definition store_lost :: UrlHandler where
  "store_lost = store_one\<lparr>disk := Map.empty\<rparr>"

definition entry_A :: FileEntry where
  "entry_A = \<lparr>id_e = ''a'', filename = ''a.mp4'', filepath = ''/srv/a.mp4'', token = ''ta'',
     mimeType = ''video/mp4'', size_e = 1, createdAt = 0, expiresAt = 1000,
     lastAccessedAt = 1\<rparr>"

definition entry_B :: FileEntry where
  "entry_B = \<lparr>id_e = ''b'', filename = ''b.mp4'', filepath = ''/srv/b.mp4'', token = ''tb'',
     mimeType = ''video/mp4'', size_e = 1, createdAt = 0, expiresAt = 1000,
     lastAccessedAt = 5\<rparr>"

definition entry_C :: FileEntry where
  "entry_C = \<lparr>id_e = ''c'', filename = ''c.mp4'', filepath = ''/srv/c.mp4'', token = ''tc'',
     mimeType = ''video/mp4'', size_e = 1, createdAt = 0, expiresAt = 1000,
     lastAccessedAt = 3\<rparr>"

definition store_abc :: UrlHandler where
  "store_abc = \<lparr>config = cfg_small 3, files = [entry_B, entry_A, entry_C], ready = True,
     disk = [''/srv/a.mp4'' \<mapsto> [1], ''/srv/b.mp4'' \<mapsto> [2], ''/srv/c.mp4'' \<mapsto> [3]]\<rparr>"

definition env_lru :: store_env where
  "env_lru = \<lparr>clock_cleanup = 10, uuid = ''n'', token_hex = ''tn'', clock_store = 11\<rparr>"

text \<open>
  The parameters of the end-to-end example: one text scene of two seconds with the title
  Hi, at 30 frames per second, nothing else set.
\<close>

definition example_params :: RenderVideoParams where
  "example_params =
     \<lparr>scenes = [\<lparr>type_sc = ''text'', duration = Finite 2,
                  content_sc = [(''title'', ''Hi'')]\<rparr>],
      theme = None,
      settings = Some \<lparr>width_s = None, height_s = None, fps_s = Some (Finite 30),
                        format_s = None\<rparr>\<rparr>"

text \<open>
  Two scenes of 0.06 and 0.5 seconds at 25 frames per second; the durations are the
  doubles that these decimal numerals denote.
\<close>

definition rounding_params :: RenderVideoParams where
  "rounding_params =
     \<lparr>scenes = [\<lparr>type_sc = ''text'', duration = round_double (6 / 100), content_sc = []\<rparr>,
                \<lparr>type_sc = ''text'', duration = round_double (1 / 2), content_sc = []\<rparr>],
      theme = None,
      settings = Some \<lparr>width_s = None, height_s = None, fps_s = Some (Finite 25),
                        format_s = None\<rparr>\<rparr>"

definition main_composition :: composition where
  "main_composition = \<lparr>id_c = ''Main'', width_c = Finite 1920, height_c = Finite 1080,
     fps_c = Finite 30, durationInFrames = Finite 300, rest_c = []\<rparr>"

text \<open>A renderer that writes the output file, and one whose render call throws.\<close>

definition ok_renderer :: renderer_api where
  "ok_renderer =
     \<lparr>selectComposition = (\<lambda>u i props fs. (Inr main_composition, fs)),
      renderMedia = (\<lambda>opts fs. (Inr (), fs(outputLocation opts \<mapsto> File (Data ''video'')))),
      renderStill = (\<lambda>opts fs. (Inr (), fs(output_t opts \<mapsto> File (Data ''image''))))\<rparr>"

definition throwing_renderer :: renderer_api where
  "throwing_renderer =
     \<lparr>selectComposition = (\<lambda>u i props fs. (Inr main_composition, fs)),
      renderMedia = (\<lambda>opts fs. (Inl ''render failed'',
                                  fs(outputLocation opts \<mapsto> File (Data ''partial'')))),
      renderStill = (\<lambda>opts fs. (Inl ''still failed'', fs))\<rparr>"

text \<open>A bundler that creates the output directory it is given and returns its path.\<close>

definition dir_bundler :: bundler_api where
  "dir_bundler entryPoint outDir fs = (Inr outDir, fs(outDir \<mapsto> Dir))"

definition new_bundler :: "bundler_api option \<Rightarrow> DynamicBundler" where
  "new_bundler bk = \<lparr>cacheDir = ''/w/bundles'', bundleCache = Map.empty, bundler = bk\<rparr>"

definition engine0 :: "renderer_api option \<Rightarrow> RenderEngine" where
  "engine0 r =
     \<lparr>config_e = \<lparr>concurrency = 2, timeoutPerFrame = 30000, workDir = ''/w''\<rparr>,
      renderer = r,
      bundler_e = new_bundler (Some dir_bundler),
      defaultTemplateCode = ''main''\<rparr>"

definition world0 :: world where
  "world0 = \<lparr>fsys = Map.empty, compile_calls = 0, media_calls = [], still_calls = []\<rparr>"

definition job1 :: job_env where
  "job1 = \<lparr>workdir_uuid = ''j1'', project_uuid = ''p1'', rm_fails = False,
            stringify_v = (\<lambda>p. ''{scenes}''), stringify_i = (\<lambda>p. ''{scene}'')\<rparr>"

definition image_params :: RenderImageParams where
  "image_params =
     \<lparr>scene = \<lparr>type_sc = ''title'', duration = Finite 3,
               content_sc = [(''title'', ''Hi'')]\<rparr>,
      theme_i = None, settings_i = None, frame = None\<rparr>"

section \<open>Facts about the model\<close>

subsection \<open>The local output store\<close>

lemma removeFile_config [simp]: "config (removeFile i st) = config st"
  by (simp add: removeFile_def split: option.splits)

lemma removeFile_ready [simp]: "ready (removeFile i st) = ready st"
  by (simp add: removeFile_def split: option.splits)

lemma files_get_None_delete: "files_get i es = None \<Longrightarrow> files_delete i es = es"
  by (induction es) (auto simp: files_get_def files_delete_def split: if_splits)

lemma removeFile_files [simp]: "files (removeFile i st) = files_delete i (files st)"
  by (simp add: removeFile_def files_get_None_delete split: option.splits)

lemma fold_removeFile_config [simp]: "config (fold removeFile ids st) = config st"
  by (induction ids arbitrary: st) auto

lemma fold_removeFile_ready [simp]: "ready (fold removeFile ids st) = ready st"
  by (induction ids arbitrary: st) auto

lemma fold_removeFile_files:
  "files (fold removeFile ids st) = filter (\<lambda>e. id_e e \<notin> set ids) (files st)"
  by (induction ids arbitrary: st) (auto simp: files_delete_def intro: filter_cong)

lemma cleanup_config [simp]: "config (cleanup now st) = config st"
  by (simp add: cleanup_def)

lemma cleanup_ready [simp]: "ready (cleanup now st) = ready st"
  by (simp add: cleanup_def)


lemma cleanup_files_distinct:
  assumes "distinct (map id_e (files st))"
  shows "files (cleanup now st) = filter (\<lambda>e. \<not> now > expiresAt e) (files st)"
proof -
  have "id_e e \<in> set (expired_ids now (files st)) \<longleftrightarrow> now > expiresAt e"
    if "e \<in> set (files st)" for e
    using that assms by (auto simp: expired_ids_def distinct_map inj_on_def)
  then show ?thesis
    by (auto simp: cleanup_def fold_removeFile_files intro: filter_cong)
qed

lemma diskUsageBytes_sum: "diskUsageBytes es = (\<Sum>f\<leftarrow>es. int (size_e f))"
proof -
  have "fold (\<lambda>f sum. sum + int (size_e f)) es a = a + (\<Sum>f\<leftarrow>es. int (size_e f))" for a
    by (induction es arbitrary: a) auto
  then show ?thesis by (simp add: diskUsageBytes_def)
qed

lemma diskUsageBytes_nonneg: "0 \<le> diskUsageBytes es"
  unfolding diskUsageBytes_sum by (induction es) auto

lemma diskUsageBytes_delete_le: "diskUsageBytes (files_delete i es) \<le> diskUsageBytes es"
  by (induction es) (auto simp: diskUsageBytes_sum files_delete_def)

lemma diskUsageBytes_delete_mem:
  "e \<in> set es \<Longrightarrow> diskUsageBytes (files_delete (id_e e) es) \<le> diskUsageBytes es - int (size_e e)"
  using diskUsageBytes_delete_le[of "id_e e"]
  by (induction es) (auto simp: diskUsageBytes_sum files_delete_def)

lemma findLRU_None: "findLRU st = None \<longleftrightarrow> files st = []"
proof -
  have "findLRU_loop lru es \<noteq> None" if "lru \<noteq> None \<or> es \<noteq> []" for lru es
    using that by (induction es arbitrary: lru) (auto split: option.splits)
  then show ?thesis by (cases "files st") (auto simp: findLRU_def)
qed

lemma evict_for_disk_config [simp]: "config (evict_for_disk inc cur st) = config st"
  by (induction inc cur st rule: evict_for_disk.induct)
     (subst evict_for_disk.simps, auto split: option.splits)

lemma evict_for_count_config [simp]: "config (evict_for_count st) = config st"
  by (induction st rule: evict_for_count.induct)
     (subst evict_for_count.simps, auto split: option.splits)

lemma evict_for_disk_usage:
  "diskUsageBytes (files st) \<le> cur \<Longrightarrow> int inc \<le> maxDiskBytes (config st) \<Longrightarrow>
   diskUsageBytes (files (evict_for_disk inc cur st)) + int inc \<le> maxDiskBytes (config st)"
proof (induction inc cur st rule: evict_for_disk.induct)
  case (1 inc cur st)
  show ?case
  proof (cases "cur + int inc > maxDiskBytes (config st) \<and> length (files st) > 0")
    case False
    then show ?thesis using "1.prems"
      by (subst evict_for_disk.simps) (auto simp: diskUsageBytes_sum)
  next
    case True
    then obtain lru where l: "findLRU st = Some lru"
      using findLRU_None [of st] by (cases "findLRU st") auto
    have "diskUsageBytes (files (removeFile (id_e lru) st)) \<le> cur - int (size_e lru)"
      using diskUsageBytes_delete_mem [OF findLRU_mem [OF l]] "1.prems"(1) by simp
    then have "diskUsageBytes (files (evict_for_disk inc (cur - int (size_e lru)) (removeFile (id_e lru) st))) + int inc
        \<le> maxDiskBytes (config (removeFile (id_e lru) st))"
      using "1.IH" [OF True l] "1.prems"(2) by simp
    then show ?thesis using True l by (subst evict_for_disk.simps) simp
  qed
qed

lemma evict_for_count_usage:
  "diskUsageBytes (files (evict_for_count st)) \<le> diskUsageBytes (files st)"
proof (induction st rule: evict_for_count.induct)
  case (1 st)
  show ?case
  proof (cases "findLRU st")
    case None
    then show ?thesis by (subst evict_for_count.simps) simp
  next
    case (Some lru)
    show ?thesis
    proof (cases "int (length (files st)) \<ge> maxFiles (config st)")
      case True
      have "diskUsageBytes (files (evict_for_count (removeFile (id_e lru) st)))
           \<le> diskUsageBytes (files (removeFile (id_e lru) st))"
        using "1.IH" [OF True Some] .
      also have "\<dots> \<le> diskUsageBytes (files st)"
        by (simp add: diskUsageBytes_delete_le)
      finally show ?thesis using True Some by (subst evict_for_count.simps) simp
    next
      case False
      then show ?thesis by (subst evict_for_count.simps) simp
    qed
  qed
qed

lemma evict_for_count_length:
  "int (length (files (evict_for_count st))) < maxFiles (config st) \<or> files (evict_for_count st) = []"
proof (induction st rule: evict_for_count.induct)
  case (1 st)
  show ?case
  proof (cases "int (length (files st)) \<ge> maxFiles (config st)")
    case False
    then show ?thesis by (subst (1 2) evict_for_count.simps) simp
  next
    case True
    show ?thesis
    proof (cases "findLRU st")
      case None
      then show ?thesis using True findLRU_None [of st]
        by (subst (1 2) evict_for_count.simps) simp
    next
      case (Some lru)
      show ?thesis using "1.IH" [OF True Some] True Some
        by (subst (1 2) evict_for_count.simps) simp
    qed
  qed
qed

lemma files_set_length: "length (files_set i entry es) \<le> Suc (length es)"
  by (induction es) auto

lemma files_set_usage:
  "diskUsageBytes (files_set i entry es) \<le> diskUsageBytes es + int (size_e entry)"
  by (induction es) (auto simp: diskUsageBytes_sum)

lemma enforceQuotas_config: "config (snd (enforceQuotas now inc st)) = config st"
  by (simp add: enforceQuotas_def Let_def)

lemma enforceQuotas_ok_quota:
  assumes "enforceQuotas now inc st = (Inr u, st1)"
  shows "diskUsageBytes (files st1) + int inc \<le> maxDiskBytes (config st)"
    and "int (length (files st1)) < maxFiles (config st) \<or> files st1 = []"
proof -
  let ?c = "cleanup now st"
  let ?d = "evict_for_disk inc (diskUsageBytes (files ?c)) ?c"
  from assms have le: "int inc \<le> maxDiskBytes (config st)"
    and st1: "st1 = evict_for_count ?d"
    by (auto simp: enforceQuotas_def Let_def split: if_splits)
  have "diskUsageBytes (files ?d) + int inc \<le> maxDiskBytes (config ?c)"
    by (rule evict_for_disk_usage) (simp_all add: le)
  then show "diskUsageBytes (files st1) + int inc \<le> maxDiskBytes (config st)"
    using evict_for_count_usage [of ?d] by (simp add: st1)
  show "int (length (files st1)) < maxFiles (config st) \<or> files st1 = []"
    using evict_for_count_length [of ?d] by (simp add: st1)
qed


lemma find_filename_None:
  "find (\<lambda>f. filename f = fname) es = None \<longleftrightarrow> fname \<notin> filename ` set es"
  by (induction es) auto

lemma files_get_Some_iff:
  "distinct (map id_e es) \<Longrightarrow> files_get i es = Some e \<longleftrightarrow> e \<in> set es \<and> id_e e = i"
  by (induction es) (auto simp: files_get_def)

lemma files_delete_distinct: "distinct (map id_e es) \<Longrightarrow> distinct (map id_e (files_delete i es))"
  by (simp add: files_delete_def distinct_map_filter)

lemma removeFile_disk:
  assumes "distinct (map id_e (files st))"
  shows "disk (removeFile i st) p =
     (if \<exists>e\<in>set (files st). id_e e = i \<and> filepath e = p then None else disk st p)"
proof (cases "files_get i (files st)")
  case None
  then have n: "\<not> (\<exists>e\<in>set (files st). id_e e = i \<and> filepath e = p)"
    unfolding files_get_def find_None_iff by blast
  have r: "removeFile i st = st"
    by (simp add: removeFile_def None)
  show ?thesis by (simp only: r if_not_P [OF n])
next
  case (Some a)
  then have a: "a \<in> set (files st)" "id_e a = i"
    using files_get_Some_iff [OF assms] by blast+
  have u: "e = a" if "e \<in> set (files st)" "id_e e = i" for e
  proof -
    have "inj_on id_e (set (files st))" using assms by (simp add: distinct_map)
    then show ?thesis using that a by (simp add: inj_on_def)
  qed
  have eq: "(\<exists>e\<in>set (files st). id_e e = i \<and> filepath e = p) \<longleftrightarrow> filepath a = p"
    using a u by blast
  have "disk (removeFile i st) p = ((disk st)(filepath a := None)) p"
    by (simp add: removeFile_def Some)
  then show ?thesis unfolding eq by simp
qed

lemma if_or_None:
  "(if B then None else if C then None else x) = (if B \<or> C then None else x)"
  by simp

lemma fold_removeFile_disk:
  "distinct (map id_e (files st)) \<Longrightarrow>
   disk (fold removeFile ids st) p =
     (if \<exists>e\<in>set (files st). id_e e \<in> set ids \<and> filepath e = p then None else disk st p)"
proof (induction ids arbitrary: st)
  case Nil
  then show ?case by simp
next
  case (Cons i ids)
  have d: "distinct (map id_e (files (removeFile i st)))"
    using Cons.prems by (simp add: files_delete_distinct)
  have "disk (fold removeFile (i # ids) st) p = disk (fold removeFile ids (removeFile i st)) p"
    by simp
  also have "\<dots> = (if \<exists>e\<in>set (files (removeFile i st)). id_e e \<in> set ids \<and> filepath e = p
                     then None else disk (removeFile i st) p)"
    by (rule Cons.IH [OF d])
  also have "\<dots> = (if \<exists>e\<in>set (files st). id_e e \<in> set (i # ids) \<and> filepath e = p
                     then None else disk st p)"
  proof -
    let ?B = "\<exists>e\<in>set (files st). id_e e \<noteq> i \<and> id_e e \<in> set ids \<and> filepath e = p"
    let ?C = "\<exists>e\<in>set (files st). id_e e = i \<and> filepath e = p"
    have e1: "(\<exists>e\<in>set (files (removeFile i st)). id_e e \<in> set ids \<and> filepath e = p) \<longleftrightarrow> ?B"
      by (auto simp: files_delete_def)
    have e2: "(\<exists>e\<in>set (files st). id_e e \<in> set (i # ids) \<and> filepath e = p) \<longleftrightarrow> ?B \<or> ?C"
      by (simp only: set_simps insert_iff) blast
    show ?thesis
      unfolding e1 e2 removeFile_disk [OF Cons.prems]
      by (rule if_or_None)
  qed
  finally show ?case .
qed

lemma cleanup_disk:
  assumes "distinct (map id_e (files st))"
  shows "disk (cleanup now st) p =
     (if \<exists>e\<in>set (files st). now > expiresAt e \<and> filepath e = p then None else disk st p)"
proof -
  have "id_e e \<in> set (expired_ids now (files st)) \<longleftrightarrow> now > expiresAt e"
    if "e \<in> set (files st)" for e
    using that assms by (auto simp: expired_ids_def distinct_map inj_on_def)
  then have eq: "(\<exists>e\<in>set (files st). id_e e \<in> set (expired_ids now (files st)) \<and> filepath e = p)
      \<longleftrightarrow> (\<exists>e\<in>set (files st). now > expiresAt e \<and> filepath e = p)"
    by blast
  show ?thesis
    unfolding cleanup_def fold_removeFile_disk [OF assms] eq by (rule refl)
qed






lemma store_ok_files:
  assumes "store env file st = (Inr r, st')"
  shows "\<exists>st1. enforceQuotas (clock_cleanup env) (length (buffer file)) st = (Inr (), st1)
        \<and> files st' = files_set (uuid env) (new_entry env file (config st)) (files st1)
        \<and> config st' = config st"
proof -
  obtain res st1 where eq: "enforceQuotas (clock_cleanup env) (length (buffer file)) st = (res, st1)"
    by (cases "enforceQuotas (clock_cleanup env) (length (buffer file)) st")
  with assms obtain u where res: "res = Inr u"
    by (cases res) (auto simp: store_def split: if_splits)
  have cfg: "config st1 = config st"
    using enforceQuotas_config [of "clock_cleanup env" "length (buffer file)" st] eq by simp
  show ?thesis
    using assms eq res cfg
    by (auto simp: store_def Let_def new_entry_def split: if_splits)
qed

lemma findLRU_loop_least:
  "findLRU_loop lru es = Some e \<Longrightarrow>
   (\<forall>x\<in>set es. lastAccessedAt e \<le> lastAccessedAt x)
   \<and> (\<forall>l. lru = Some l \<longrightarrow> lastAccessedAt e \<le> lastAccessedAt l)"
proof (induction es arbitrary: lru)
  case Nil
  then show ?case by simp
next
  case (Cons x xs)
  show ?case
    using Cons.IH [OF Cons.prems [simplified]]
    by (cases lru) (auto split: if_splits)
qed

lemma findLRU_least:
  "findLRU st = Some e \<Longrightarrow> \<forall>x\<in>set (files st). lastAccessedAt e \<le> lastAccessedAt x"
  using findLRU_loop_least [of None "files st" e] by (simp add: findLRU_def)

lemma files_set_fresh: "i \<notin> id_e ` set es \<Longrightarrow> files_set i entry es = es @ [entry]"
  by (induction es) auto

lemma files_set_distinct:
  "distinct (map id_e es) \<Longrightarrow> id_e entry = i \<Longrightarrow> distinct (map id_e (files_set i entry es))"
proof (induction es)
  case Nil
  then show ?case by simp
next
  case (Cons e es)
  have "id_e ` set (files_set i entry es) \<subseteq> insert i (id_e ` set es)"
    using Cons.prems(2) by (induction es) auto
  then show ?case using Cons by auto
qed

lemma touch_ids: "map id_e (touch fname t es) = map id_e es"
  by (induction es) auto

lemma evict_for_disk_distinct:
  "distinct (map id_e (files st)) \<Longrightarrow> distinct (map id_e (files (evict_for_disk inc cur st)))"
proof (induction inc cur st rule: evict_for_disk.induct)
  case (1 inc cur st)
  show ?case
  proof (cases "cur + int inc > maxDiskBytes (config st) \<and> length (files st) > 0")
    case False
    have "evict_for_disk inc cur st = st"
      by (subst evict_for_disk.simps) (simp only: False if_False)
    then show ?thesis using "1.prems" by simp
  next
    case True
    show ?thesis
    proof (cases "findLRU st")
      case None
      then show ?thesis using "1.prems" by (subst evict_for_disk.simps) simp
    next
      case (Some lru)
      have "distinct (map id_e (files (removeFile (id_e lru) st)))"
        using "1.prems" by (simp add: files_delete_distinct)
      then show ?thesis using "1.IH" [OF True Some] True Some
        by (subst evict_for_disk.simps) simp
    qed
  qed
qed

lemma evict_for_count_distinct:
  "distinct (map id_e (files st)) \<Longrightarrow> distinct (map id_e (files (evict_for_count st)))"
proof (induction st rule: evict_for_count.induct)
  case (1 st)
  show ?case
  proof (cases "int (length (files st)) \<ge> maxFiles (config st)")
    case False
    then show ?thesis using "1.prems" by (subst evict_for_count.simps) simp
  next
    case True
    show ?thesis
    proof (cases "findLRU st")
      case None
      then show ?thesis using "1.prems" by (subst evict_for_count.simps) simp
    next
      case (Some lru)
      have "distinct (map id_e (files (removeFile (id_e lru) st)))"
        using "1.prems" by (simp add: files_delete_distinct)
      then show ?thesis using "1.IH" [OF True Some] True Some
        by (subst evict_for_count.simps) simp
    qed
  qed
qed

lemma cleanup_distinct:
  "distinct (map id_e (files st)) \<Longrightarrow> distinct (map id_e (files (cleanup now st)))"
  by (simp add: cleanup_def fold_removeFile_files distinct_map_filter)

text \<open>
  The tracked entries stay a map keyed by id under every operation of the store.
\<close>

lemma store_distinct:
  assumes "distinct (map id_e (files st))"
  shows "distinct (map id_e (files (snd (store env file st))))"
proof -
  let ?q = "enforceQuotas (clock_cleanup env) (length (buffer file)) st"
  have dq: "distinct (map id_e (files (snd ?q)))"
    using assms
    by (simp add: enforceQuotas_def Let_def cleanup_distinct evict_for_disk_distinct
                  evict_for_count_distinct)
  show ?thesis
  proof (cases "ready st")
    case False
    then show ?thesis using assms by (simp add: store_def)
  next
    case True
    show ?thesis
    proof (cases ?q)
      case (Pair res st1)
      then have d1: "distinct (map id_e (files st1))" using dq by simp
      show ?thesis
      proof (cases res)
        case (Inl e)
        then show ?thesis using True Pair d1 by (simp add: store_def)
      next
        case (Inr u)
        have "distinct (map id_e (files_set (uuid env) E (files st1)))"
          if "id_e E = uuid env" for E
          using files_set_distinct [OF d1 that] .
        then show ?thesis using True Pair Inr
          by (simp add: store_def Let_def)
      qed
    qed
  qed
qed

lemma getFile_distinct:
  "distinct (map id_e (files st)) \<Longrightarrow>
   distinct (map id_e (files (snd (getFile now now' fname tok st))))"
  by (simp add: getFile_def touch_ids split: option.splits)

lemmas store_unfold =
  store_def enforceQuotas_def cleanup_def expired_ids_def new_UrlHandler_def
  diskUsageBytes_def evict_for_disk.simps evict_for_count.simps findLRU_def
  getExtension_def path_join_def Let_def removeFile_def files_get_def files_delete_def

lemmas fixture_defs = cfg_small_def env1_def env2_def file1_def file_big_def ready_store_def

lemma store_one_eq:
  "store_one = \<lparr>config = cfg_small 3, files = [entry_u1], ready = True,
                 disk = [''/srv/u1.mp4'' \<mapsto> [1]]\<rparr>"
  by (simp add: store_one_def entry_u1_def store_unfold fixture_defs cong: option.case_cong_weak)

lemma store_two_eq:
  "store_two = \<lparr>config = cfg_small 3, files = [entry_u1, entry_u2], ready = True,
                 disk = [''/srv/u1.mp4'' \<mapsto> [1], ''/srv/u2.mp4'' \<mapsto> [1]]\<rparr>"
  by (simp add: store_two_def store_one_eq entry_u1_def entry_u2_def store_unfold fixture_defs
           cong: option.case_cong_weak)

lemmas abc_defs = store_abc_def entry_A_def entry_B_def entry_C_def env_lru_def



lemma touch_forget: "map forget_access (touch fname t es) = map forget_access es"
  by (induction es) (auto simp: forget_access_def)

lemma sendFile_status:
  "status (sendFile ct cd p d) =
     (if \<not> is_absolute p then 500 else if d p = None then 404 else 200)"
  by (simp add: sendFile_def split: option.splits)

subsection \<open>The cache key\<close>

lemma digit_char_hex: "d < 16 \<Longrightarrow> digit_char d \<in> set ''0123456789abcdef''"
  unfolding digit_char_def by (rule nth_mem) simp

lemma nat_toString_hex: "set (nat_toString 16 n) \<subseteq> set ''0123456789abcdef''"
proof (induction "16::nat" n rule: nat_toString.induct)
  case (1 n)
  show ?case
  proof (cases "n < 16")
    case True
    then show ?thesis
      using digit_char_hex [of n] by (subst nat_toString.simps) simp
  next
    case False
    have "n mod 16 < 16" by simp
    then have "digit_char (n mod 16) \<in> set ''0123456789abcdef''" by (rule digit_char_hex)
    then show ?thesis using 1 False
      by (subst nat_toString.simps) simp
  qed
qed

lemma hashCode_no_dash: "CHR ''-'' \<notin> set (hashCode s)"
  using nat_toString_hex [of "nat \<bar>sint (fold (\<lambda>c hash. hash_step hash c) s 0)\<bar>"]
  by (auto simp: hashCode_def)

lemma split_at_last:
  assumes "xs @ a # ys = xs' @ a # ys'" "a \<notin> set ys" "a \<notin> set ys'"
  shows "xs = xs' \<and> ys = ys'"
proof -
  have *: "takeWhile (\<lambda>c. c \<noteq> a) (rev zs @ a # ws) = rev zs" if "a \<notin> set zs" for zs ws
    using that by (subst takeWhile_append2) auto
  have "rev ys @ a # rev xs = rev ys' @ a # rev xs'"
    using arg_cong [OF assms(1), of rev] by simp
  then have "takeWhile (\<lambda>c. c \<noteq> a) (rev ys @ a # rev xs) = takeWhile (\<lambda>c. c \<noteq> a) (rev ys' @ a # rev xs')"
    by simp
  then have "rev ys = rev ys'" using * assms(2,3) by simp
  then have "ys = ys'" by simp
  then show ?thesis using assms(1) by simp
qed

subsection \<open>JavaScript numbers\<close>

text \<open>
  \<open>binade\<close> is the binary exponent, and a whole number below \<open>2 ^ 53\<close> in magnitude is a
  double: sums and products of such numbers are exact as long as they stay below that
  bound.
\<close>

lemma bit_length_nonneg: "0 \<le> bit_length n"
  by (induction n rule: bit_length.induct) (subst bit_length.simps, auto)

lemma bit_length_pos: "0 < n \<Longrightarrow> 0 < bit_length n"
  using bit_length_nonneg [of "n div 2"] by (subst bit_length.simps) simp

lemma bit_length_bounds:
  "0 < n \<Longrightarrow> 2 ^ nat (bit_length n - 1) \<le> n \<and> n < 2 ^ nat (bit_length n)"
proof (induction n rule: bit_length.induct)
  case (1 n)
  show ?case
  proof (cases "n = 1")
    case True
    then show ?thesis by (simp add: bit_length.simps)
  next
    case False
    with "1.prems" have h: "0 < n div 2" by simp
    have ih: "2 ^ nat (bit_length (n div 2) - 1) \<le> n div 2
        \<and> n div 2 < 2 ^ nat (bit_length (n div 2))"
      using "1.IH" h "1.prems" by simp
    have bl: "bit_length n = 1 + bit_length (n div 2)"
      using "1.prems" by (subst bit_length.simps) simp
    have p: "0 < bit_length (n div 2)" using h by (rule bit_length_pos)
    have e1: "nat (bit_length n - 1) = Suc (nat (bit_length (n div 2) - 1))"
      using p by (simp add: bl)
    have e2: "nat (bit_length n) = Suc (nat (bit_length (n div 2)))"
      using p by (simp add: bl)
    show ?thesis unfolding e1 e2 using ih by auto
  qed
qed

lemma powi_neg: "0 \<le> j \<Longrightarrow> (2::rat) powi (- j) = 1 / 2 ^ nat j"
  by (simp add: power_int_minus power_int_def inverse_eq_divide power_one_over)

lemma binade_bounds:
  assumes "x \<noteq> 0"
  shows "2 powi binade x \<le> \<bar>x\<bar> \<and> \<bar>x\<bar> < 2 powi (binade x + 1)"
proof (cases "1 \<le> \<bar>x\<bar>")
  case True
  let ?n = "\<lfloor>\<bar>x\<bar>\<rfloor>"
  have n: "0 < ?n" using True by simp
  note b = bit_length_bounds [OF n]
  have be: "binade x = bit_length ?n - 1" using True by (simp add: binade_def)
  have p: "0 < bit_length ?n" using n by (rule bit_length_pos)
  have "(2::rat) powi binade x = of_int (2 ^ nat (bit_length ?n - 1))"
    using p by (simp add: be power_int_def)
  also have "\<dots> \<le> of_int ?n" using b by (simp only: of_int_le_iff)
  also have "\<dots> \<le> \<bar>x\<bar>" by simp
  finally have lo: "2 powi binade x \<le> \<bar>x\<bar>" .
  have "?n + 1 \<le> 2 ^ nat (bit_length ?n)" using b by simp
  then have "rat_of_int (?n + 1) \<le> of_int (2 ^ nat (bit_length ?n))"
    by (simp only: of_int_le_iff)
  moreover have "\<bar>x\<bar> < of_int (?n + 1)" by linarith
  moreover have "(2::rat) powi (binade x + 1) = of_int (2 ^ nat (bit_length ?n))"
    using p by (simp add: be power_int_def)
  ultimately have hi: "\<bar>x\<bar> < 2 powi (binade x + 1)" by linarith
  show ?thesis using lo hi by simp
next
  case False
  let ?y = "1 / \<bar>x\<bar>"
  let ?m = "\<lceil>?y\<rceil> - 1"
  have xp: "0 < \<bar>x\<bar>" using assms by simp
  have y1: "1 < ?y" using False xp by (simp add: field_simps)
  have m: "0 < ?m" using y1 by linarith
  note b = bit_length_bounds [OF m]
  let ?k = "nat (bit_length ?m)"
  have be: "binade x = - bit_length ?m" using False by (simp add: binade_def)
  have p: "0 < bit_length ?m" using m by (rule bit_length_pos)
  \<comment> \<open>\<open>2 ^ (k - 1) < y \<le> 2 ^ k\<close>\<close>
  have "\<lceil>?y\<rceil> \<le> 2 ^ ?k" using b by simp
  then have "rat_of_int \<lceil>?y\<rceil> \<le> of_int (2 ^ ?k)" by (simp only: of_int_le_iff)
  moreover have "?y \<le> of_int \<lceil>?y\<rceil>" by (rule le_of_int_ceiling)
  ultimately have "?y \<le> rat_of_int (2 ^ ?k)" by (rule order_trans [rotated])
  then have yhi: "?y \<le> 2 ^ ?k" by simp
  have "rat_of_int (2 ^ nat (bit_length ?m - 1)) \<le> of_int ?m"
    using b by (simp only: of_int_le_iff)
  moreover have "of_int ?m < ?y" by linarith
  ultimately have ylo: "2 ^ nat (bit_length ?m - 1) < ?y" by simp
  have lo: "2 powi binade x \<le> \<bar>x\<bar>"
  proof -
    have "1 \<le> \<bar>x\<bar> * 2 ^ ?k" using yhi xp by (simp add: field_simps)
    then have "1 / 2 ^ ?k \<le> \<bar>x\<bar>" by (simp add: field_simps)
    moreover have "(2::rat) powi binade x = 1 / 2 ^ ?k"
      using p by (simp add: be power_int_def field_simps)
    ultimately show ?thesis by simp
  qed
  have hi: "\<bar>x\<bar> < 2 powi (binade x + 1)"
  proof -
    have "\<bar>x\<bar> * 2 ^ nat (bit_length ?m - 1) < 1" using ylo xp by (simp add: field_simps)
    then have "\<bar>x\<bar> < 1 / 2 ^ nat (bit_length ?m - 1)" by (simp add: field_simps)
    moreover have "(2::rat) powi (binade x + 1) = 1 / 2 ^ nat (bit_length ?m - 1)"
    proof -
      have "binade x + 1 = - (bit_length ?m - 1)" by (simp add: be)
      moreover have "0 \<le> bit_length ?m - 1" using p by simp
      ultimately show ?thesis by (simp only: powi_neg)
    qed
    ultimately show ?thesis by simp
  qed
  show ?thesis using lo hi by simp
qed

lemma round_half_even_int [simp]: "round_half_even (of_int m) = m"
  by (simp add: round_half_even_def)

lemma binade_int:
  assumes "n \<noteq> 0" and "\<bar>n\<bar> < 2 ^ 53"
  shows "0 \<le> binade (of_int n) \<and> binade (of_int n) \<le> 52"
proof -
  let ?x = "rat_of_int n"
  have x: "?x \<noteq> 0" using assms(1) by simp
  have a1: "1 \<le> \<bar>?x\<bar>"
  proof -
    have "1 \<le> \<bar>n\<bar>" using assms(1) by simp
    then have "rat_of_int 1 \<le> of_int \<bar>n\<bar>" by (simp only: of_int_le_iff)
    then show ?thesis by simp
  qed
  have fl: "\<lfloor>\<bar>?x\<bar>\<rfloor> = \<bar>n\<bar>"
  proof -
    have "\<bar>?x\<bar> = of_int \<bar>n\<bar>" by simp
    then show ?thesis by (simp only: floor_of_int)
  qed
  have "0 < bit_length \<bar>n\<bar>" using assms(1) by (intro bit_length_pos) simp
  then have lo: "0 \<le> binade ?x" using a1 by (simp add: binade_def fl)
  have "2 powi binade ?x \<le> \<bar>?x\<bar>" using binade_bounds [OF x] by simp
  moreover have "\<bar>?x\<bar> < 2 ^ 53"
  proof -
    have "rat_of_int \<bar>n\<bar> < of_int (2 ^ 53)" using assms(2) by (simp only: of_int_less_iff)
    then show ?thesis by simp
  qed
  ultimately have "(2::rat) powi binade ?x < 2 powi 53" by simp
  then have "binade ?x < 53" by (rule power_int_le_imp_less_exp [rotated]) simp_all
  with lo show ?thesis by simp
qed

lemma round_double_int:
  assumes "\<bar>n\<bar> < 2 ^ 53"
  shows "round_double (of_int n) = Finite (of_int n)"
proof (cases "n = 0")
  case True
  then show ?thesis by (simp add: round_double_def)
next
  case False
  let ?x = "rat_of_int n"
  let ?e = "binade ?x"
  note b = binade_int [OF False assms]
  have mx: "max ?e (- 1022) = ?e" using b by simp
  let ?k = "nat (52 - ?e)"
  have ulp: "(2::rat) powi (?e - 52) = 1 / 2 ^ ?k"
  proof -
    have "?e - 52 = - (52 - ?e)" by simp
    moreover have "0 \<le> 52 - ?e" using b by simp
    ultimately show ?thesis by (simp only: powi_neg)
  qed
  have q: "?x / (1 / 2 ^ ?k) = of_int (n * 2 ^ ?k)" by simp
  have r: "of_int (round_half_even (?x / (1 / 2 ^ ?k))) * (1 / 2 ^ ?k) = ?x"
    unfolding q round_half_even_int by simp
  have small: "\<not> 2 powi 1024 \<le> \<bar>?x\<bar>"
  proof -
    have "rat_of_int \<bar>n\<bar> < of_int (2 ^ 53)" using assms by (simp only: of_int_less_iff)
    then have "\<bar>?x\<bar> < 2 ^ 53" by simp
    moreover have "(2::rat) ^ 53 \<le> 2 ^ 1024" by (rule power_increasing) simp_all
    ultimately show ?thesis by simp
  qed
  show ?thesis
    using False small
    by (simp only: round_double_def Let_def mx ulp r of_int_eq_0_iff if_False)
qed

lemma js_add_int:
  "\<bar>a + b\<bar> < 2 ^ 53 \<Longrightarrow>
   js_add (Finite (of_int a)) (Finite (of_int b)) = Finite (of_int (a + b))"
  using round_double_int [of "a + b"] by (simp add: js_add.simps(1))

lemma js_mul_int:
  "\<bar>a * b\<bar> < 2 ^ 53 \<Longrightarrow>
   js_mul (Finite (of_int a)) (Finite (of_int b)) = Finite (of_int (a * b))"
  using round_double_int [of "a * b"] by (simp add: js_mul.simps(1))

lemma js_ceil_int: "js_ceil (Finite (of_int m)) = Finite (of_int m)"
  by simp

lemma foldl_js_add_int:
  assumes "\<forall>k\<in>set ks. 0 \<le> k" and "0 \<le> a" and "a + sum_list ks < 2 ^ 53"
  shows "foldl js_add (Finite (of_int a)) (map (\<lambda>k. Finite (of_int k)) ks)
           = Finite (of_int (a + sum_list ks))"
  using assms
proof (induction ks arbitrary: a)
  case Nil
  then show ?case by simp
next
  case (Cons k ks)
  have nn: "0 \<le> sum_list ks" using Cons.prems(1) by (simp add: sum_list_nonneg)
  have k: "0 \<le> k" using Cons.prems(1) by simp
  have "\<bar>a + k\<bar> < 2 ^ 53" using Cons.prems(2,3) nn k by simp
  then have st: "js_add (Finite (of_int a)) (Finite (of_int k)) = Finite (of_int (a + k))"
    by (rule js_add_int)
  have "foldl js_add (Finite (of_int (a + k))) (map (\<lambda>k. Finite (of_int k)) ks)
          = Finite (of_int ((a + k) + sum_list ks))"
    using Cons.prems k by (intro Cons.IH) simp_all
  then show ?case by (simp only: foldl_Cons list.map st sum_list.Cons add.assoc)
qed

text \<open>The arithmetic of the examples.\<close>

lemma js_add_0_2: "js_add (Finite 0) (Finite 2) = Finite 2"
  using js_add_int [of 0 2] by simp

lemma js_mul_2_30: "js_mul (Finite 2) (Finite 30) = Finite 60"
  using js_mul_int [of 2 30] by simp

lemma js_mul_3_30: "js_mul (Finite 3) (Finite 30) = Finite 90"
  using js_mul_int [of 3 30] by simp

text \<open>\<^verbatim>\<open>0.1 + 0.2\<close> is \<^verbatim>\<open>0.30000000000000004\<close>, the double next above \<^verbatim>\<open>0.3\<close>.\<close>

lemma js_add_tenths:
  "js_add (round_double (1 / 10)) (round_double (2 / 10))
     = Finite (1351079888211149 / 4503599627370496)
   \<and> round_double (3 / 10) = Finite (5404319552844595 / 18014398509481984)
   \<and> (1351079888211149 / 4503599627370496 :: rat)
       = 5404319552844595 / 18014398509481984 + 1 / 18014398509481984"
  by code_simp

lemma double_6_100: "round_double (6 / 100) = Finite (1080863910568919 / 18014398509481984)"
  by code_simp

lemma double_1_2: "round_double (1 / 2) = Finite (1 / 2)"
  by code_simp

lemma rounding_params_eq:
  "rounding_params =
     \<lparr>scenes = [\<lparr>type_sc = ''text'', duration = Finite (1080863910568919 / 18014398509481984),
                  content_sc = []\<rparr>,
                \<lparr>type_sc = ''text'', duration = Finite (1 / 2), content_sc = []\<rparr>],
      theme = None,
      settings = Some \<lparr>width_s = None, height_s = None, fps_s = Some (Finite 25),
                        format_s = None\<rparr>\<rparr>"
  unfolding rounding_params_def double_6_100 double_1_2 by (rule refl)

lemma totalDuration_rounding:
  "totalDuration (scenes rounding_params) = Finite (1261007895663739 / 2251799813685248)"
  unfolding rounding_params_eq by code_simp

lemma frames_rounding:
  "js_ceil (js_mul (Finite (1261007895663739 / 2251799813685248)) (Finite 25)) = Finite 15"
  by code_simp

subsection \<open>The bundler and the engine\<close>

lemma totalDuration_foldl: "totalDuration ss = foldl js_add (Finite 0) (map duration ss)"
proof -
  have "fold (\<lambda>s sum. js_add sum (duration s)) ss a = foldl js_add a (map duration ss)" for a
    by (induction ss arbitrary: a) auto
  then show ?thesis by (simp add: totalDuration_def)
qed

lemma run_cleanup_calls [simp]:
  "media_calls (run_cleanup c w) = media_calls w"
  "compile_calls (run_cleanup c w) = compile_calls w"
  "still_calls (run_cleanup c w) = still_calls w"
  by (simp_all add: run_cleanup_def split: cleanup_fn.splits)

lemma bundle_build_calls [simp]:
  "media_calls (snd (snd (bundle_build code key u (b, w)))) = media_calls w"
  "still_calls (snd (snd (bundle_build code key u (b, w)))) = still_calls w"
  by (simp_all add: bundle_build_def Let_def split: option.splits sum.splits)

lemma bundle_calls [simp]:
  "media_calls (snd (snd (bundle code name u (b, w)))) = media_calls w"
  "still_calls (snd (snd (bundle code name u (b, w)))) = still_calls w"
  by (simp_all add: bundle_def Let_def split: option.splits)

lemma video_result_world [simp]: "snd (snd (video_result p m md (e, w))) = w"
  by (simp add: video_result_def split: sum.splits)

lemma mock_video:
  assumes "renderer e = None"
  shows "fst (renderVideo env params tc (e, w)) =
     Inr \<lparr>buffer_r = ''Mock video: '' @ stringify_v env params,
          mimeType_r = getMimeType (format_name
             (case settings params of None \<Rightarrow> Mp4
              | Some s \<Rightarrow> (case format_s s of None \<Rightarrow> Mp4 | Some f \<Rightarrow> f))),
          metadata_r = \<lparr>duration_m = Some (totalDuration (scenes params)),
             width_m = num_or (case settings params of None \<Rightarrow> None | Some s \<Rightarrow> width_s s)
                         (Finite 1920),
             height_m = num_or (case settings params of None \<Rightarrow> None | Some s \<Rightarrow> height_s s)
                          (Finite 1080),
             fps_m = Some (num_or (case settings params of None \<Rightarrow> None | Some s \<Rightarrow> fps_s s) (Finite 30))\<rparr>\<rparr>"
  using assms
  by (simp add: renderVideo_def renderVideo_try_def Let_def video_result_def fs_readFile_def
        fs_writeFile_def split: prod.splits)

lemma video_result_eq:
  "video_result p m md (e, w) = (r, e', w') \<Longrightarrow> w' = w \<and> e' = e"
  by (auto simp: video_result_def split: sum.splits)

lemma media_calls_try:
  "media_calls (snd (snd (renderVideo_try env params tc wd (e, w)))) = media_calls w
   \<or> (\<exists>opts. media_calls (snd (snd (renderVideo_try env params tc wd (e, w))))
                = media_calls w @ [opts]
        \<and> durationInFrames (composition_o opts)
            = js_ceil (js_mul (totalDuration (scenes params))
                         (num_or (case settings params of None \<Rightarrow> None | Some s \<Rightarrow> fps_s s) (Finite 30))))"
proof (cases "renderer e")
  case None
  then show ?thesis
    by (simp add: renderVideo_try_def Let_def)
next
  case (Some r)
  let ?w = "w\<lparr>fsys := fs_mkdir wd (fsys w)\<rparr>"
  obtain res b1 w1 where bu: "bundle (pick_code tc (defaultTemplateCode e)) ''universal''
       (project_uuid env) (bundler_e e, ?w) = (res, b1, w1)"
    by (metis prod_cases3)
  have m1: "media_calls w1 = media_calls w"
    using bundle_calls(1) [of "pick_code tc (defaultTemplateCode e)" "''universal''"
       "project_uuid env" "bundler_e e" ?w] bu by simp
  show ?thesis
  proof (cases res)
    case (Inl err)
    then show ?thesis using Some bu m1
      by (simp add: renderVideo_try_def Let_def)
  next
    case (Inr br)
    show ?thesis
    proof (cases "fst (selectComposition r (bundlePath br) ''Main''
              \<lparr>scenes_p = scenes params, theme_p = theme_or_empty (theme params)\<rparr> (fsys w1))")
      case (Inl msg)
      then show ?thesis using Some bu m1 Inr
        by (simp add: renderVideo_try_def Let_def)
    next
      case sel: (Inr selected)
      show ?thesis using Some bu m1 Inr sel
        by (simp add: renderVideo_try_def Let_def
                 split: sum.splits)
    qed
  qed
qed

lemma renderVideo_world:
  "snd (snd (renderVideo env params tc (e, w))) =
     finally_rm env (job_workDir env e)
       (snd (snd (renderVideo_try env params tc (job_workDir env e) (e, w))))"
  by (simp add: renderVideo_def split: prod.splits)

lemma renderVideo_result:
  "fst (renderVideo env params tc (e, w)) =
     fst (renderVideo_try env params tc (job_workDir env e) (e, w))"
  by (simp add: renderVideo_def split: prod.splits)

lemma media_calls_video:
  "media_calls (snd (snd (renderVideo env params tc (e, w)))) = media_calls w
   \<or> (\<exists>opts. media_calls (snd (snd (renderVideo env params tc (e, w)))) = media_calls w @ [opts]
        \<and> durationInFrames (composition_o opts)
            = js_ceil (js_mul (totalDuration (scenes params))
                         (num_or (case settings params of None \<Rightarrow> None | Some s \<Rightarrow> fps_s s) (Finite 30))))"
proof -
  have f: "media_calls (finally_rm env wd x) = media_calls x" for wd x
    by (simp add: finally_rm_def)
  show ?thesis
    using media_calls_try [of env params tc "job_workDir env e" e w]
    by (simp add: renderVideo_world f)
qed

lemma video_result_Inr:
  "fst (video_result p m md ew) = Inr r \<Longrightarrow> metadata_r r = md \<and> mimeType_r r = m"
  by (cases ew) (auto simp: video_result_def split: sum.splits)

lemma renderVideo_try_metadata:
  assumes "fst (renderVideo_try env params tc wd (e, w)) = Inr r"
  shows "metadata_r r =
     \<lparr>duration_m = Some (totalDuration (scenes params)),
      width_m = num_or (case settings params of None \<Rightarrow> None | Some s \<Rightarrow> width_s s)
                  (Finite 1920),
      height_m = num_or (case settings params of None \<Rightarrow> None | Some s \<Rightarrow> height_s s)
                   (Finite 1080),
      fps_m = Some (num_or (case settings params of None \<Rightarrow> None | Some s \<Rightarrow> fps_s s) (Finite 30))\<rparr>"
proof (cases "renderer e")
  case None
  then show ?thesis using assms
    by (auto simp: renderVideo_try_def Let_def
             dest!: video_result_Inr)
next
  case (Some rn)
  let ?w = "w\<lparr>fsys := fs_mkdir wd (fsys w)\<rparr>"
  obtain res b1 w1 where bu: "bundle (pick_code tc (defaultTemplateCode e)) ''universal''
       (project_uuid env) (bundler_e e, ?w) = (res, b1, w1)"
    by (metis prod_cases3)
  show ?thesis
  proof (cases res)
    case (Inl err)
    then show ?thesis using Some bu assms
      by (simp add: renderVideo_try_def Let_def)
  next
    case (Inr br)
    show ?thesis
    proof (cases "fst (selectComposition rn (bundlePath br) ''Main''
              \<lparr>scenes_p = scenes params, theme_p = theme_or_empty (theme params)\<rparr> (fsys w1))")
      case (Inl msg)
      then show ?thesis using Some bu Inr assms
        by (simp add: renderVideo_try_def Let_def)
    next
      case sel: (Inr selected)
      show ?thesis using Some bu Inr sel assms
        by (auto simp: renderVideo_try_def Let_def
                 split: sum.splits dest!: video_result_Inr)
    qed
  qed
qed

lemma renderVideo_try_rm_fails [simp]:
  "renderVideo_try (env\<lparr>rm_fails := x\<rparr>) params tc wd ew = renderVideo_try env params tc wd ew"
  by (simp add: renderVideo_try_def Let_def cong: option.case_cong prod.case_cong sum.case_cong)

lemma renderImage_try_rm_fails [simp]:
  "renderImage_try (env\<lparr>rm_fails := x\<rparr>) params tc wd ew = renderImage_try env params tc wd ew"
  by (simp add: renderImage_try_def Let_def cong: option.case_cong prod.case_cong sum.case_cong)

lemma job_workDir_rm_fails [simp]: "job_workDir (env\<lparr>rm_fails := x\<rparr>) e = job_workDir env e"
  by (simp add: job_workDir_def)

lemma finally_rm_gone:
  "\<not> rm_fails env \<Longrightarrow> is_under wd p \<Longrightarrow> fsys (finally_rm env wd w) p = None"
  by (simp add: finally_rm_def fs_rm_def)

lemma is_under_self: "is_under d d"
  by (simp add: is_under_def)

lemma bundle_build_ok:
  assumes "bundle_build code key u (b, w) = (Inr r, b1, w1)"
  shows "bundleCache b1 key = Some (bundlePath r)
       \<and> cacheDir b1 = cacheDir b \<and> bundler b1 = bundler b
       \<and> compile_calls w1 = Suc (compile_calls w)
       \<and> cleanup_b r = RmProject (path_join (cacheDir b) (''project-'' @ u))"
  using assms
  by (auto simp: bundle_build_def Let_def split: option.splits sum.splits)

lemma bundle_ok:
  assumes "bundle code name u (b, w) = (Inr r, b1, w1)"
  shows "bundleCache b1 (cacheKey name code) = Some (bundlePath r)
       \<and> cacheDir b1 = cacheDir b \<and> bundler b1 = bundler b
       \<and> compile_calls w1 \<le> Suc (compile_calls w)
       \<and> (cleanup_b r = Noop
          \<or> cleanup_b r = RmProject (path_join (cacheDir b) (''project-'' @ u)))"
proof (cases "bundleCache b (cacheKey name code)")
  case None
  then have "bundle_build code (cacheKey name code) u (b, w) = (Inr r, b1, w1)"
    using assms by (simp add: bundle_def Let_def)
  from bundle_build_ok [OF this] show ?thesis by simp
next
  case (Some cachedPath)
  show ?thesis
  proof (cases "cachedPath \<noteq> [] \<and> fs_access cachedPath (fsys w)")
    case True
    then show ?thesis using assms Some by (auto simp: bundle_def Let_def)
  next
    case False
    then consider "cachedPath = []" | "cachedPath \<noteq> []" "\<not> fs_access cachedPath (fsys w)"
      by blast
    then show ?thesis
    proof cases
      case 1
      then have "bundle_build code (cacheKey name code) u (b, w) = (Inr r, b1, w1)"
        using assms Some by (simp add: bundle_def Let_def)
      from bundle_build_ok [OF this] show ?thesis by simp
    next
      case 2
      then have "bundle_build code (cacheKey name code) u
          (b\<lparr>bundleCache := (bundleCache b)(cacheKey name code := None)\<rparr>, w) = (Inr r, b1, w1)"
        using assms Some by (simp add: bundle_def Let_def)
      from bundle_build_ok [OF this] show ?thesis by simp
    qed
  qed
qed

lemma not_under_both:
  assumes "is_under (path_join cd (''bundle-'' @ k)) p"
  shows "\<not> is_under (path_join cd (''project-'' @ u)) p"
proof
  assume a: "is_under (path_join cd (''project-'' @ u)) p"
  let ?c = "if cd = [] then [] else cd @ ''/''"
  have pb: "path_join cd (''bundle-'' @ k) = ?c @ ''bundle-'' @ k"
    and pp: "path_join cd (''project-'' @ u) = ?c @ ''project-'' @ u"
    by (simp_all add: path_join_def)
  have b: "prefix (?c @ ''b'') p"
    using assms unfolding pb is_under_def by (auto simp: prefix_def)
  have c: "prefix (?c @ ''p'') p"
    using a unfolding pp is_under_def by (auto simp: prefix_def)
  from b c have "prefix (?c @ ''b'') (?c @ ''p'') \<or> prefix (?c @ ''p'') (?c @ ''b'')"
    by (rule prefix_same_cases)
  then show False by simp
qed

lemmas engine_unfold =
  renderVideo_def renderVideo_try_def renderImage_def renderImage_try_def video_result_def
  finally_rm_def job_workDir_def bundle_def bundle_build_def createProjectStructure_def
  run_cleanup_def fs_rm_def fs_mkdir_def fs_writeFile_def fs_access_def fs_readFile_def
  is_under_def path_join_def pick_code_def theme_or_empty_def num_or_def totalDuration_def
  format_name_def image_format_name_def getCodec_def getMimeType_def Let_def

lemmas engine_fixtures =
  main_composition_def ok_renderer_def throwing_renderer_def dir_bundler_def new_bundler_def
  engine0_def world0_def job1_def example_params_def image_params_def

lemma cacheKey_main: "cacheKey ''universal'' ''main'' = ''universal-3305b9''"
  by (simp add: cacheKey_def hashCode_def hash_step_def charCodeAt_def nat_toString.simps
                digit_char_def)

section \<open>Claims about the local output store\<close>

text \<open>
  C1 (as amended). Whenever \<^verbatim>\<open>store()\<close> returns successfully, then immediately afterwards
  the sum of the sizes of the tracked entries is at most \<open>maxDiskBytes\<close>, whatever
  \<open>maxFiles\<close> is. If \<open>maxFiles \<ge> 1\<close>, the number of tracked entries is at most
  \<open>maxFiles\<close>. If \<open>maxFiles \<le> 0\<close>, the call evicts every tracked entry and then tracks
  the new one alone, so the number of tracked entries is 1 and exceeds \<open>maxFiles\<close>. The
  state before the call is arbitrary, so the statement covers every call of every
  sequence of calls.
\<close>

theorem store_quota:
  assumes "store env file st = (Inr r, st')"
  shows "diskUsageBytes (files st') \<le> maxDiskBytes (config st')
       \<and> (1 \<le> maxFiles (config st) \<longrightarrow> int (length (files st')) \<le> maxFiles (config st'))
       \<and> (maxFiles (config st) \<le> 0 \<longrightarrow>
            files st' = [new_entry env file (config st)]
          \<and> maxFiles (config st') < int (length (files st')))"
proof -
  let ?N = "new_entry env file (config st)"
  obtain st1 where eq: "enforceQuotas (clock_cleanup env) (length (buffer file)) st = (Inr (), st1)"
    and fs: "files st' = files_set (uuid env) ?N (files st1)"
    and cfg': "config st' = config st"
    using store_ok_files [OF assms] by blast
  have sz: "size_e ?N = length (buffer file)" by (simp add: new_entry_def)
  note q = enforceQuotas_ok_quota [OF eq]
  have "diskUsageBytes (files st') \<le> diskUsageBytes (files st1) + int (length (buffer file))"
    using files_set_usage [of "uuid env" ?N "files st1"] by (simp add: fs sz)
  then have d: "diskUsageBytes (files st') \<le> maxDiskBytes (config st')"
    using q(1) by (simp add: cfg')
  have c: "int (length (files st')) \<le> maxFiles (config st')" if "1 \<le> maxFiles (config st)"
    using q(2) files_set_length [of "uuid env" ?N "files st1"] that by (auto simp: fs cfg')
  have z: "files st' = [?N] \<and> maxFiles (config st') < int (length (files st'))"
    if "maxFiles (config st) \<le> 0"
  proof -
    have "files st1 = []" using q(2) that by auto
    then show ?thesis using that by (simp add: fs cfg')
  qed
  show ?thesis using d c z by blast
qed

text \<open>
  Witness: with \<open>maxFiles = 1\<close> a second store call succeeds and evicts the first file;
  with \<open>maxFiles = 0\<close> a store call succeeds and tracks the new entry alone; with
  \<open>maxFiles = - 1\<close> a second store call succeeds, evicts the first file and tracks the
  new entry alone, one entry more than \<open>maxFiles\<close> allows.
\<close>

theorem store_quota_witness:
  "\<not> isl (fst (store env2 file1 (snd (store env1 file1 (ready_store 1)))))
   \<and> 1 \<le> maxFiles (config (snd (store env1 file1 (ready_store 1))))
   \<and> diskUsageBytes (files (snd (store env2 file1 (snd (store env1 file1 (ready_store 1))))))
       \<le> maxDiskBytes (config (snd (store env2 file1 (snd (store env1 file1 (ready_store 1))))))
   \<and> int (length (files (snd (store env2 file1 (snd (store env1 file1 (ready_store 1)))))))
       \<le> maxFiles (config (snd (store env2 file1 (snd (store env1 file1 (ready_store 1))))))
   \<and> map id_e (files (snd (store env2 file1 (snd (store env1 file1 (ready_store 1))))))
       = [''u2'']
   \<and> \<not> isl (fst (store env1 file1 (ready_store 0)))
   \<and> maxFiles (config (ready_store 0)) \<le> 0
   \<and> files (snd (store env1 file1 (ready_store 0)))
       = [new_entry env1 file1 (config (ready_store 0))]
   \<and> diskUsageBytes (files (snd (store env1 file1 (ready_store 0))))
       \<le> maxDiskBytes (config (snd (store env1 file1 (ready_store 0))))
   \<and> \<not> isl (fst (store env2 file1 (snd (store env1 file1 (ready_store (- 1))))))
   \<and> maxFiles (config (snd (store env1 file1 (ready_store (- 1))))) \<le> 0
   \<and> map id_e (files (snd (store env2 file1 (snd (store env1 file1 (ready_store (- 1)))))))
       = [''u2'']
   \<and> maxFiles (config (snd (store env2 file1 (snd (store env1 file1 (ready_store (- 1)))))))
       < int (length (files (snd (store env2 file1
            (snd (store env1 file1 (ready_store (- 1))))))))"
proof -
  let ?s1 = "snd (store env1 file1 (ready_store 1))"
  let ?x = "store env2 file1 ?s1"
  let ?y = "store env1 file1 (ready_store 0)"
  let ?n1 = "snd (store env1 file1 (ready_store (- 1)))"
  let ?z = "store env2 file1 ?n1"
  have c: "1 \<le> maxFiles (config ?s1)"
    by (simp add: store_unfold fixture_defs cong: option.case_cong_weak)
  have ok: "\<not> isl (fst ?x)"
    by (simp add: store_unfold fixture_defs cong: option.case_cong_weak)
  then have ex: "?x = (Inr (projr (fst ?x)), snd ?x)"
    by (simp add: prod_eq_iff)
  have ids: "map id_e (files (snd ?x)) = [''u2'']"
    by (simp add: store_unfold fixture_defs cong: option.case_cong_weak)
  have c0: "maxFiles (config (ready_store 0)) \<le> 0"
    by (simp add: fixture_defs new_UrlHandler_def)
  have ok0: "\<not> isl (fst ?y)"
    by (simp add: store_unfold fixture_defs cong: option.case_cong_weak)
  then have ey: "?y = (Inr (projr (fst ?y)), snd ?y)"
    by (simp add: prod_eq_iff)
  have cn: "maxFiles (config ?n1) \<le> 0"
    by (simp add: store_unfold fixture_defs cong: option.case_cong_weak)
  have okn: "\<not> isl (fst ?z)"
    by (simp add: store_unfold fixture_defs cong: option.case_cong_weak)
  then have ez: "?z = (Inr (projr (fst ?z)), snd ?z)"
    by (simp add: prod_eq_iff)
  have idn: "map id_e (files (snd ?z)) = [''u2'']"
    by (simp add: store_unfold fixture_defs cong: option.case_cong_weak)
  from store_quota [OF ex] store_quota [OF ey] store_quota [OF ez]
    c ok ids c0 ok0 cn okn idn show ?thesis
    by blast
qed

text \<open>
  Counterexample to C1 as written: with \<open>maxFiles = 0\<close> a store call on the empty store
  succeeds and leaves one tracked entry, more than \<open>maxFiles\<close>.
\<close>

theorem store_quota_maxFiles0_counterexample:
  "\<not> isl (fst (store env1 file1 (ready_store 0)))
   \<and> length (files (snd (store env1 file1 (ready_store 0)))) = 1
   \<and> maxFiles (config (snd (store env1 file1 (ready_store 0)))) = 0"
  by (simp add: store_unfold fixture_defs cong: option.case_cong_weak)




text \<open>
  C3. When the buffer is longer than \<open>maxDiskBytes\<close>, \<^verbatim>\<open>store\<close> on an initialised store
  fails with the too-large error; afterwards the tracked entries are exactly the
  entries that had not expired at the sweep (so nothing is inserted and nothing unexpired
  is evicted), and the disk differs only by the removal of the files of the expired
  entries (so nothing is written). The tracked entries form a map keyed by id.
\<close>

theorem store_too_large:
  assumes "ready st"
      and "int (length (buffer file)) > maxDiskBytes (config st)"
      and "distinct (map id_e (files st))"
  shows "fst (store env file st) = Inl (FileTooLarge (length (buffer file)))
       \<and> files (snd (store env file st))
           = filter (\<lambda>e. \<not> clock_cleanup env > expiresAt e) (files st)
       \<and> disk (snd (store env file st))
           = (\<lambda>p. if \<exists>e\<in>set (files st). clock_cleanup env > expiresAt e \<and> filepath e = p
                  then None else disk st p)
       \<and> config (snd (store env file st)) = config st
       \<and> ready (snd (store env file st))"
proof -
  let ?c = "cleanup (clock_cleanup env) st"
  have s: "store env file st = (Inl (FileTooLarge (length (buffer file))), ?c)"
    using assms(1,2) by (simp add: store_def enforceQuotas_def Let_def)
  have d: "disk ?c = (\<lambda>p. if \<exists>e\<in>set (files st). clock_cleanup env > expiresAt e \<and> filepath e = p
                          then None else disk st p)"
    by (rule ext) (rule cleanup_disk [OF assms(3)])
  have f: "files ?c = filter (\<lambda>e. \<not> clock_cleanup env > expiresAt e) (files st)"
    by (rule cleanup_files_distinct [OF assms(3)])
  have c: "config ?c = config st" and r: "ready ?c"
    using assms(1) by simp_all
  show ?thesis
    unfolding s fst_conv snd_conv using d f c r by (intro conjI) (rule refl, assumption+)
qed

text \<open>
  Witness: two files are tracked, one expired at the time of the call; an 11-byte
  buffer against a quota of 10 bytes is rejected, only the expired file is dropped.
\<close>

theorem store_too_large_witness:
  "ready store_two
   \<and> int (length (buffer file_big)) > maxDiskBytes (config store_two)
   \<and> distinct (map id_e (files store_two))
   \<and> fst (store env3 file_big store_two) = Inl (FileTooLarge 11)
   \<and> files (snd (store env3 file_big store_two)) = [entry_u2]
   \<and> disk (snd (store env3 file_big store_two)) ''/srv/u1.mp4'' = None
   \<and> disk (snd (store env3 file_big store_two)) ''/srv/u2.mp4'' = Some [1]"
proof -
  have r: "ready store_two"
    and l: "int (length (buffer file_big)) > maxDiskBytes (config store_two)"
    and d: "distinct (map id_e (files store_two))"
    by (simp_all add: store_two_eq entry_u1_def entry_u2_def fixture_defs)
  show ?thesis
    using store_too_large [OF r l d, of env3] r l d
    by (simp add: store_two_eq entry_u1_def entry_u2_def env3_def fixture_defs)
qed

text \<open>
  C10 (as amended). A request \<^verbatim>\<open>GET /files/:filename\<close> that is answered 403 or 410, or
  that names no tracked file (answered 404), leaves the whole state of the store as it
  was: the tracked entries with all their fields (an expired entry stays tracked), the
  files on disk, the configuration and the ready flag. No request changes the disk, the
  configuration, the ready flag, the set of tracked entries or any field of an entry
  other than \<open>lastAccessedAt\<close>. (A request for a tracked file that has disappeared from
  the disk is answered 404 after \<open>lastAccessedAt\<close> has been written.)
\<close>

theorem getFile_failure_frame:
  "(status (fst (getFile now now' fname tok st)) \<in> {403, 410} \<longrightarrow>
      snd (getFile now now' fname tok st) = st)
   \<and> (fname \<notin> filename ` set (files st) \<longrightarrow>
        status (fst (getFile now now' fname tok st)) = 404
      \<and> snd (getFile now now' fname tok st) = st)
   \<and> disk (snd (getFile now now' fname tok st)) = disk st
   \<and> config (snd (getFile now now' fname tok st)) = config st
   \<and> ready (snd (getFile now now' fname tok st)) = ready st
   \<and> map forget_access (files (snd (getFile now now' fname tok st)))
       = map forget_access (files st)"
proof (cases "find (\<lambda>f. filename f = fname) (files st)")
  case None
  then show ?thesis by (simp add: getFile_def)
next
  case (Some e)
  then have "fname \<in> filename ` set (files st)"
    using find_filename_None [of fname "files st"] by auto
  then show ?thesis using Some
    by (simp add: getFile_def touch_forget sendFile_status)
qed

text \<open>
  Witness: requests for the expired file of a store with the right token (410) and with
  a wrong token (403), and a request for an unknown filename (404), change nothing; the
  expired entry is still tracked afterwards.
\<close>

theorem getFile_failure_frame_witness:
  "status (fst (getFile 3000 3000 ''u1.mp4'' (Some ''t1'') store_one)) = 410
   \<and> snd (getFile 3000 3000 ''u1.mp4'' (Some ''t1'') store_one) = store_one
   \<and> files (snd (getFile 3000 3000 ''u1.mp4'' (Some ''t1'') store_one)) = [entry_u1]
   \<and> status (fst (getFile 3000 3000 ''u1.mp4'' (Some ''bad'') store_one)) = 403
   \<and> snd (getFile 3000 3000 ''u1.mp4'' (Some ''bad'') store_one) = store_one
   \<and> status (fst (getFile 1500 1500 ''zz.mp4'' (Some ''t1'') store_one)) = 404
   \<and> snd (getFile 1500 1500 ''zz.mp4'' (Some ''t1'') store_one) = store_one"
proof -
  have s: "status (fst (getFile 3000 3000 ''u1.mp4'' (Some ''t1'') store_one)) = 410"
    and s': "status (fst (getFile 3000 3000 ''u1.mp4'' (Some ''bad'') store_one)) = 403"
    by (simp_all add: getFile_def store_one_eq entry_u1_def)
  have m: "status (fst (getFile 3000 3000 ''u1.mp4'' (Some ''t1'') store_one)) \<in> {403, 410}"
    and m': "status (fst (getFile 3000 3000 ''u1.mp4'' (Some ''bad'') store_one)) \<in> {403, 410}"
    by (simp_all add: s s')
  have n: "''zz.mp4'' \<notin> filename ` set (files store_one)"
    by (simp add: store_one_eq entry_u1_def)
  have w1: "snd (getFile 3000 3000 ''u1.mp4'' (Some ''t1'') store_one) = store_one"
    using getFile_failure_frame [where st = store_one and now = 3000 and now' = 3000
      and fname = "''u1.mp4''" and tok = "Some ''t1''"] m by blast
  have w2: "snd (getFile 3000 3000 ''u1.mp4'' (Some ''bad'') store_one) = store_one"
    using getFile_failure_frame [where st = store_one and now = 3000 and now' = 3000
      and fname = "''u1.mp4''" and tok = "Some ''bad''"] m' by blast
  have w3: "status (fst (getFile 1500 1500 ''zz.mp4'' (Some ''t1'') store_one)) = 404
      \<and> snd (getFile 1500 1500 ''zz.mp4'' (Some ''t1'') store_one) = store_one"
    using getFile_failure_frame [where st = store_one and now = 1500 and now' = 1500
      and fname = "''zz.mp4''" and tok = "Some ''t1''"] n by blast
  have f: "files store_one = [entry_u1]" by (simp add: store_one_eq)
  show ?thesis using s s' w1 w2 w3 f by simp
qed

text \<open>
  Counterexample to C10 as written: the file of the tracked entry has disappeared from
  the disk; the request is answered 404, and the entry's \<open>lastAccessedAt\<close> has changed
  from 1000 to 1501.
\<close>

theorem getFile_late_404_counterexample:
  "status (fst (getFile 1500 1501 ''u1.mp4'' (Some ''t1'') store_lost)) = 404
   \<and> map lastAccessedAt (files store_lost) = [1000]
   \<and> map lastAccessedAt (files (snd (getFile 1500 1501 ''u1.mp4'' (Some ''t1'') store_lost)))
       = [1501]"
  by (simp add: getFile_def sendFile_def is_absolute_def store_lost_def store_one_eq entry_u1_def)




text \<open>
  C9. A store that tracks exactly three entries A, B and C, last accessed at 1, 5 and 3,
  none expired, with \<open>maxFiles = 3\<close> and room on disk for the new file, evicts exactly A
  when a new file is stored: afterwards it tracks B, C and the new entry, and not A.
  This holds for every iteration order of the three entries.
\<close>

theorem store_evicts_lru:
  assumes fs: "set (files st) = {A, B, C}"
      and d: "distinct (map id_e (files st))"
      and la: "lastAccessedAt A = 1" "lastAccessedAt B = 5" "lastAccessedAt C = 3"
      and rdy: "ready st"
      and mf: "maxFiles (config st) = 3"
      and live: "\<forall>e\<in>set (files st). \<not> clock_cleanup env > expiresAt e"
      and room: "diskUsageBytes (files st) + int (length (buffer file)) \<le> maxDiskBytes (config st)"
      and fresh: "uuid env \<notin> id_e ` set (files st)"
      and date: "\<bar>clock_store env + ttlSeconds (config st) * 1000\<bar> \<le> 8640000000000000"
  shows "\<not> isl (fst (store env file st))
       \<and> set (files (snd (store env file st))) = {B, C, new_entry env file (config st)}
       \<and> A \<notin> set (files (snd (store env file st)))
       \<and> length (files (snd (store env file st))) = 3"
proof -
  let ?N = "new_entry env file (config st)"
  have ne: "A \<noteq> B" "A \<noteq> C" "B \<noteq> C" using la by auto
  have dist: "distinct (files st)" using d by (simp add: distinct_map)
  have len: "length (files st) = 3"
    using distinct_card [OF dist] fs ne by simp
  have inj: "inj_on id_e (set (files st))" using d by (simp add: distinct_map)
  have ids: "id_e B \<noteq> id_e A" "id_e C \<noteq> id_e A"
    using inj fs ne by (auto simp: inj_on_def)
  \<comment> \<open>the sweep removes nothing\<close>
  have c: "cleanup (clock_cleanup env) st = st"
  proof -
    have "expired_ids (clock_cleanup env) (files st) = []"
      using live by (simp add: expired_ids_def)
    then show ?thesis by (simp add: cleanup_def)
  qed
  \<comment> \<open>the disk loop does not run\<close>
  have dl: "evict_for_disk (length (buffer file)) (diskUsageBytes (files st)) st = st"
    using room by (subst evict_for_disk.simps) simp
  \<comment> \<open>the count loop runs once, on A\<close>
  obtain lru where l: "findLRU st = Some lru"
    using findLRU_None [of st] len by (cases "findLRU st") auto
  have "lru \<in> {A, B, C}" using findLRU_mem [OF l] fs by simp
  moreover have "lastAccessedAt lru \<le> lastAccessedAt A"
    using findLRU_least [OF l] fs by simp
  ultimately have lA: "lru = A" using la by auto
  let ?r = "removeFile (id_e A) st"
  have fr: "files ?r = filter (\<lambda>e. id_e e \<noteq> id_e A) (files st)"
    by (simp add: files_delete_def)
  have sr: "set (files ?r) = {B, C}"
    unfolding fr using fs ids by auto
  have "distinct (files ?r)" unfolding fr using dist by simp
  then have lr: "length (files ?r) = 2"
    using distinct_card [of "files ?r"] sr ne by simp
  have cl2: "evict_for_count ?r = ?r"
    using lr mf by (subst evict_for_count.simps) simp
  have cl: "evict_for_count st = ?r"
    using len mf l lA cl2 by (subst evict_for_count.simps) simp
  have big: "\<not> int (length (buffer file)) > maxDiskBytes (config st)"
    using room diskUsageBytes_nonneg [of "files st"] by linarith
  have eq: "enforceQuotas (clock_cleanup env) (length (buffer file)) st = (Inr (), ?r)"
    using big by (simp add: enforceQuotas_def c dl cl)
  have fresh': "uuid env \<notin> id_e ` set (files ?r)"
    using fresh sr fs by auto
  have st': "store env file st =
      (Inr \<lparr>url = (if baseUrl (config st) \<noteq> [] then baseUrl (config st)
                     else ''http://localhost:'' @ int_toString (port (config st)))
                    @ ''/files/'' @ filename ?N @ ''?token='' @ token ?N,
            expiresAt_r = expiresAt ?N\<rparr>,
       ?r\<lparr>disk := (disk ?r)(filepath ?N \<mapsto> buffer file),
          files := files ?r @ [?N]\<rparr>)"
    using rdy date files_set_fresh [OF fresh', of ?N]
    by (simp add: store_def eq Let_def new_entry_def)
  have "A \<noteq> ?N" using fresh fs by (auto simp: new_entry_def)
  then show ?thesis
    unfolding st' using sr lr ne by auto
qed

text \<open>Witness: the store tracks B, A, C in this order; storing one byte evicts A.\<close>

theorem store_evicts_lru_witness:
  "set (files store_abc) = {entry_A, entry_B, entry_C}
   \<and> distinct (map id_e (files store_abc))
   \<and> lastAccessedAt entry_A = 1 \<and> lastAccessedAt entry_B = 5 \<and> lastAccessedAt entry_C = 3
   \<and> ready store_abc \<and> maxFiles (config store_abc) = 3
   \<and> \<not> clock_cleanup env_lru > expiresAt entry_A
   \<and> \<not> clock_cleanup env_lru > expiresAt entry_B
   \<and> \<not> clock_cleanup env_lru > expiresAt entry_C
   \<and> diskUsageBytes (files store_abc) + int (length (buffer file1))
        \<le> maxDiskBytes (config store_abc)
   \<and> uuid env_lru \<notin> id_e ` set (files store_abc)
   \<and> \<not> isl (fst (store env_lru file1 store_abc))
   \<and> set (files (snd (store env_lru file1 store_abc)))
        = {entry_B, entry_C, new_entry env_lru file1 (cfg_small 3)}
   \<and> entry_A \<notin> set (files (snd (store env_lru file1 store_abc)))"
proof -
  have h1: "set (files store_abc) = {entry_A, entry_B, entry_C}"
    and h2: "distinct (map id_e (files store_abc))"
    and h3: "lastAccessedAt entry_A = 1" "lastAccessedAt entry_B = 5" "lastAccessedAt entry_C = 3"
    and h4: "ready store_abc" and h5: "maxFiles (config store_abc) = 3"
    and h6: "\<forall>e\<in>set (files store_abc). \<not> clock_cleanup env_lru > expiresAt e"
    and h7: "diskUsageBytes (files store_abc) + int (length (buffer file1))
               \<le> maxDiskBytes (config store_abc)"
    and h8: "uuid env_lru \<notin> id_e ` set (files store_abc)"
    and h9: "\<bar>clock_store env_lru + ttlSeconds (config store_abc) * 1000\<bar> \<le> 8640000000000000"
    by (auto simp: abc_defs fixture_defs diskUsageBytes_def)
  have h6': "\<not> clock_cleanup env_lru > expiresAt entry_A"
    "\<not> clock_cleanup env_lru > expiresAt entry_B" "\<not> clock_cleanup env_lru > expiresAt entry_C"
    by (simp_all add: abc_defs)
  have c: "config store_abc = cfg_small 3" by (simp add: store_abc_def)
  show ?thesis
    using store_evicts_lru [OF h1 h2 h3 h4 h5 h6 h7 h8 h9] h1 h2 h3 h4 h5 h6' h7 h8
    unfolding c by blast
qed

section \<open>Claims about the bundle cache and the render job\<close>

text \<open>
  C5. Let a first call \<^verbatim>\<open>bundle(sourceText, name)\<close> succeed with a bundle path that is a
  non-empty string, and let that path be present on disk when the second call starts,
  directly after the first call or after the first call's release function has run.
  Then the second call with the same arguments returns the same bundle path with a
  release function that does nothing, and changes neither the bundler nor the world: the
  backend has compiled at most once over both calls. The cache entry is in place after
  the first call, no release function can reach the cache, and the release function of
  the first call leaves every path under the bundle output directory as it was.
\<close>

theorem bundle_twice:
  assumes first: "bundle code name u1 (b, w) = (Inr r1, b1, w1)"
      and truthy: "bundlePath r1 \<noteq> []"
      and mid: "w1' = w1 \<or> w1' = run_cleanup (cleanup_b r1) w1"
      and present: "fs_access (bundlePath r1) (fsys w1')"
  shows "bundle code name u2 (b1, w1')
           = (Inr \<lparr>bundlePath = bundlePath r1, cleanup_b = Noop\<rparr>, b1, w1')
       \<and> compile_calls w1' \<le> Suc (compile_calls w)
       \<and> run_cleanup Noop w1' = w1'
       \<and> bundleCache b1 (cacheKey name code) = Some (bundlePath r1)
       \<and> (\<forall>p. is_under (path_join (cacheDir b) (''bundle-'' @ cacheKey name code)) p \<longrightarrow>
              fsys (run_cleanup (cleanup_b r1) w1) p = fsys w1 p)"
proof -
  note ok = bundle_ok [OF first]
  have hit: "bundleCache b1 (cacheKey name code) = Some (bundlePath r1)" using ok by simp
  have 1: "bundle code name u2 (b1, w1')
           = (Inr \<lparr>bundlePath = bundlePath r1, cleanup_b = Noop\<rparr>, b1, w1')"
    using hit truthy present by (simp add: bundle_def Let_def)
  have 2: "compile_calls w1' \<le> Suc (compile_calls w)"
    using mid ok by auto
  have 3: "run_cleanup Noop w1' = w1'" by (simp add: run_cleanup_def)
  have 4: "fsys (run_cleanup (cleanup_b r1) w1) p = fsys w1 p"
    if "is_under (path_join (cacheDir b) (''bundle-'' @ cacheKey name code)) p" for p
    using ok not_under_both [OF that, of u1]
    by (auto simp: run_cleanup_def fs_rm_def)
  show ?thesis using 1 2 3 4 hit by blast
qed

text \<open>
  Witness: a first call on an empty cache compiles once; its release function removes
  the project directory; the second call returns the cached path and compiles nothing.
\<close>

theorem bundle_twice_witness:
  "\<not> isl (fst (bundle ''main'' ''universal'' ''p1'' (new_bundler (Some dir_bundler), world0)))
   \<and> bundlePath (projr (fst (bundle ''main'' ''universal'' ''p1''
         (new_bundler (Some dir_bundler), world0)))) = ''/w/bundles/bundle-universal-3305b9''
   \<and> fst (bundle ''main'' ''universal'' ''p2''
        (fst (snd (bundle ''main'' ''universal'' ''p1'' (new_bundler (Some dir_bundler), world0))),
         run_cleanup
           (cleanup_b (projr (fst (bundle ''main'' ''universal'' ''p1''
              (new_bundler (Some dir_bundler), world0)))))
           (snd (snd (bundle ''main'' ''universal'' ''p1''
              (new_bundler (Some dir_bundler), world0))))))
       = Inr \<lparr>bundlePath = ''/w/bundles/bundle-universal-3305b9'', cleanup_b = Noop\<rparr>
   \<and> compile_calls (snd (snd (bundle ''main'' ''universal'' ''p2''
        (fst (snd (bundle ''main'' ''universal'' ''p1'' (new_bundler (Some dir_bundler), world0))),
         run_cleanup
           (cleanup_b (projr (fst (bundle ''main'' ''universal'' ''p1''
              (new_bundler (Some dir_bundler), world0)))))
           (snd (snd (bundle ''main'' ''universal'' ''p1''
              (new_bundler (Some dir_bundler), world0)))))))) = 1"
proof -
  let ?x = "bundle ''main'' ''universal'' ''p1'' (new_bundler (Some dir_bundler), world0)"
  let ?r1 = "projr (fst ?x)"
  let ?b1 = "fst (snd ?x)"
  let ?w1 = "snd (snd ?x)"
  let ?mid = "run_cleanup (cleanup_b ?r1) ?w1"
  have ok: "\<not> isl (fst ?x)"
    by (simp add: engine_unfold engine_fixtures cacheKey_main)
  then have eq: "?x = (Inr ?r1, ?b1, ?w1)"
    by (simp add: prod_eq_iff)
  have path: "bundlePath ?r1 = ''/w/bundles/bundle-universal-3305b9''"
    by (simp add: engine_unfold engine_fixtures cacheKey_main)
  have truthy: "bundlePath ?r1 \<noteq> []"
    by (simp add: path)
  have present: "fs_access (bundlePath ?r1) (fsys ?mid)"
    by (simp add: engine_unfold engine_fixtures cacheKey_main)
  have cc: "compile_calls ?mid = 1"
    by (simp add: engine_unfold engine_fixtures cacheKey_main)
  have mid: "?mid = ?w1 \<or> ?mid = run_cleanup (cleanup_b ?r1) ?w1"
    by simp
  from bundle_twice [OF eq truthy mid present, of "''p2''"]
  have "bundle ''main'' ''universal'' ''p2'' (?b1, ?mid)
          = (Inr \<lparr>bundlePath = bundlePath ?r1, cleanup_b = Noop\<rparr>, ?b1, ?mid)"
    by blast
  then show ?thesis using ok path cc by simp
qed

text \<open>
  C6. For every \<^verbatim>\<open>renderVideo\<close> and \<^verbatim>\<open>renderImage\<close> call, whatever the backend and the
  bundler do (return or throw, on any path), when the deletion of the working directory
  succeeds no path under the job's working directory exists after the call; and a
  failing deletion changes neither the returned result nor the propagated error.
\<close>

theorem render_workDir_removed:
  "(\<not> rm_fails env \<longrightarrow>
      (\<forall>p. is_under (job_workDir env e) p \<longrightarrow>
            fsys (snd (snd (renderVideo env params tc (e, w)))) p = None
          \<and> fsys (snd (snd (renderImage env iparams tc (e, w)))) p = None))
   \<and> fst (renderVideo (env\<lparr>rm_fails := True\<rparr>) params tc (e, w))
       = fst (renderVideo (env\<lparr>rm_fails := False\<rparr>) params tc (e, w))
   \<and> fst (renderImage (env\<lparr>rm_fails := True\<rparr>) iparams tc (e, w))
       = fst (renderImage (env\<lparr>rm_fails := False\<rparr>) iparams tc (e, w))"
proof (intro conjI impI allI)
  fix p assume a: "\<not> rm_fails env" "is_under (job_workDir env e) p"
  show "fsys (snd (snd (renderVideo env params tc (e, w)))) p = None"
    using finally_rm_gone [OF a] by (simp add: renderVideo_def split: prod.splits)
  show "fsys (snd (snd (renderImage env iparams tc (e, w)))) p = None"
    using finally_rm_gone [OF a] by (simp add: renderImage_def split: prod.splits)
next
  show "fst (renderVideo (env\<lparr>rm_fails := True\<rparr>) params tc (e, w))
       = fst (renderVideo (env\<lparr>rm_fails := False\<rparr>) params tc (e, w))"
    by (simp add: renderVideo_def split: prod.splits)
  show "fst (renderImage (env\<lparr>rm_fails := True\<rparr>) iparams tc (e, w))
       = fst (renderImage (env\<lparr>rm_fails := False\<rparr>) iparams tc (e, w))"
    by (simp add: renderImage_def split: prod.splits)
qed

text \<open>
  Witness: the backend's render call writes a partial output file and throws; the error
  reaches the caller and the working directory is gone, also for a still image.
\<close>

theorem render_workDir_removed_witness:
  "\<not> rm_fails job1
   \<and> is_under (job_workDir job1 (engine0 (Some throwing_renderer))) ''/w/j1/output.mp4''
   \<and> fst (renderVideo job1 example_params None (engine0 (Some throwing_renderer), world0))
       = Inl (Thrown ''render failed'')
   \<and> fsys (snd (snd (renderVideo job1 example_params None
         (engine0 (Some throwing_renderer), world0)))) ''/w/j1/output.mp4'' = None
   \<and> fsys (snd (snd (renderVideo job1 example_params None
         (engine0 (Some throwing_renderer), world0)))) ''/w/j1'' = None
   \<and> fst (renderImage job1 image_params None (engine0 (Some throwing_renderer), world0))
       = Inl (Thrown ''still failed'')
   \<and> fsys (snd (snd (renderImage job1 image_params None
         (engine0 (Some throwing_renderer), world0)))) ''/w/j1'' = None
   \<and> fst (renderVideo (job1\<lparr>rm_fails := True\<rparr>) example_params None
         (engine0 (Some throwing_renderer), world0))
       = Inl (Thrown ''render failed'')"
proof -
  let ?e = "engine0 (Some throwing_renderer)"
  have nf: "\<not> rm_fails job1" by (simp add: job1_def)
  have u1: "is_under (job_workDir job1 ?e) ''/w/j1/output.mp4''"
    and u2: "is_under (job_workDir job1 ?e) ''/w/j1''"
    by (simp_all add: is_under_def job_workDir_def path_join_def engine_fixtures)
  have v: "fst (renderVideo job1 example_params None (?e, world0)) = Inl (Thrown ''render failed'')"
    by (simp add: engine_unfold engine_fixtures cacheKey_main)
  have i: "fst (renderImage job1 image_params None (?e, world0)) = Inl (Thrown ''still failed'')"
    by (simp add: engine_unfold engine_fixtures cacheKey_main)
  note t = render_workDir_removed
    [where env = job1 and e = ?e and w = world0 and params = example_params
       and iparams = image_params and tc = None]
  have j: "job1\<lparr>rm_fails := False\<rparr> = job1" by (simp add: job1_def)
  from t nf u1 u2 v i show ?thesis unfolding j by simp
qed

text \<open>
  C7 (as amended). With no rendering backend, \<^verbatim>\<open>renderVideo\<close> on the example (one text
  scene of 2 seconds, \<open>fps = 30\<close>) returns the mock placeholder \<open>Mock video: \<close> followed
  by the JSON text of the parameters, a non-empty buffer, with MIME type \<open>video/mp4\<close> and
  metadata duration 2, fps 30, width 1920 and height 1080. In general the frame rate is
  \<open>settings.fps\<close>, or 30 when it is missing, 0 or NaN; every result that
  \<^verbatim>\<open>renderVideo\<close> returns has as duration the scene durations added from left to right,
  starting from 0, in double-precision arithmetic; and the call makes at most one
  \<^verbatim>\<open>renderMedia\<close> call, whose frame count is \<^verbatim>\<open>Math.ceil\<close> of the double-precision product
  of that duration and the frame rate. When the durations are whole numbers \<open>k \<ge> 0\<close>
  and the frame rate is a whole number \<open>f \<ge> 1\<close> with \<open>(\<Sum>k) * f < 2 ^ 53\<close>, these are
  the exact sum \<open>\<Sum>k\<close> and the exact product \<open>(\<Sum>k) * f\<close>.
\<close>

theorem renderVideo_mock_and_metadata:
  "(renderer e = None \<longrightarrow>
      fst (renderVideo env example_params tc (e, w)) =
        Inr \<lparr>buffer_r = ''Mock video: '' @ stringify_v env example_params,
             mimeType_r = ''video/mp4'',
             metadata_r = \<lparr>duration_m = Some (Finite 2), width_m = Finite 1920,
                            height_m = Finite 1080, fps_m = Some (Finite 30)\<rparr>\<rparr>
      \<and> ''Mock video: '' @ stringify_v env example_params \<noteq> [])
   \<and> (let fps = (case settings params of
                   None \<Rightarrow> Finite 30
                 | Some s \<Rightarrow>
                     (case fps_s s of
                        None \<Rightarrow> Finite 30
                      | Some x \<Rightarrow> if x = Finite 0 \<or> x = NaN then Finite 30 else x));
           total = foldl js_add (Finite 0) (map duration (scenes params));
           out = renderVideo env params tc (e, w)
       in (\<forall>r. fst out = Inr r \<longrightarrow>
             duration_m (metadata_r r) = Some total \<and> fps_m (metadata_r r) = Some fps)
        \<and> (media_calls (snd (snd out)) = media_calls w
            \<or> (\<exists>opts. media_calls (snd (snd out)) = media_calls w @ [opts]
                 \<and> durationInFrames (composition_o opts) = js_ceil (js_mul total fps)))
        \<and> (\<forall>ks f. map duration (scenes params) = map (\<lambda>k. Finite (of_int k)) ks
                 \<and> (\<forall>k\<in>set ks. 0 \<le> k) \<and> fps = Finite (of_int f) \<and> 1 \<le> f
                 \<and> sum_list ks * f < 2 ^ 53 \<longrightarrow>
               total = Finite (of_int (sum_list ks))
             \<and> js_ceil (js_mul total fps) = Finite (of_int (sum_list ks * f))))"
proof -
  let ?fps = "case settings params of
                None \<Rightarrow> Finite 30
              | Some s \<Rightarrow>
                  (case fps_s s of
                     None \<Rightarrow> Finite 30
                   | Some x \<Rightarrow> if x = Finite 0 \<or> x = NaN then Finite 30 else x)"
  let ?total = "foldl js_add (Finite 0) (map duration (scenes params))"
  let ?out = "renderVideo env params tc (e, w)"
  have fps: "num_or (case settings params of None \<Rightarrow> None | Some s \<Rightarrow> fps_s s) (Finite 30) = ?fps"
    by (simp add: num_or_def split: option.splits)
  have ex: "fst (renderVideo env example_params tc (e, w)) =
        Inr \<lparr>buffer_r = ''Mock video: '' @ stringify_v env example_params,
             mimeType_r = ''video/mp4'',
             metadata_r = \<lparr>duration_m = Some (Finite 2), width_m = Finite 1920,
                            height_m = Finite 1080, fps_m = Some (Finite 30)\<rparr>\<rparr>
      \<and> ''Mock video: '' @ stringify_v env example_params \<noteq> []"
    if n: "renderer e = None"
    unfolding mock_video [OF n]
    by (simp add: example_params_def num_or_def getMimeType_def format_name_def
          totalDuration_def js_add_0_2)
  have md: "duration_m (metadata_r r) = Some ?total \<and> fps_m (metadata_r r) = Some ?fps"
    if "fst ?out = Inr r" for r
  proof -
    from that have "fst (renderVideo_try env params tc (job_workDir env e) (e, w)) = Inr r"
      by (simp add: renderVideo_result)
    from renderVideo_try_metadata [OF this] show ?thesis
      by (simp add: totalDuration_foldl fps)
  qed
  have mc: "media_calls (snd (snd ?out)) = media_calls w
       \<or> (\<exists>opts. media_calls (snd (snd ?out)) = media_calls w @ [opts]
            \<and> durationInFrames (composition_o opts) = js_ceil (js_mul ?total ?fps))"
    using media_calls_video [of env params tc e w]
    by (simp only: totalDuration_foldl fps)
  have xt: "?total = Finite (of_int (sum_list ks))
          \<and> js_ceil (js_mul ?total ?fps) = Finite (of_int (sum_list ks * f))"
    if h: "map duration (scenes params) = map (\<lambda>k. Finite (of_int k)) ks
         \<and> (\<forall>k\<in>set ks. 0 \<le> k) \<and> ?fps = Finite (of_int f) \<and> 1 \<le> f
         \<and> sum_list ks * f < 2 ^ 53" for ks f
  proof -
    from h have nn: "\<forall>k\<in>set ks. 0 \<le> k" and f: "1 \<le> f"
      and b: "sum_list ks * f < 2 ^ 53" by simp_all
    have s0: "0 \<le> sum_list ks" using nn by (simp add: sum_list_nonneg)
    have "sum_list ks * 1 \<le> sum_list ks * f" using s0 f by (intro mult_left_mono) simp_all
    then have sb: "sum_list ks < 2 ^ 53" using b by simp
    have "foldl js_add (Finite (of_int 0)) (map (\<lambda>k. Finite (of_int k)) ks)
            = Finite (of_int (0 + sum_list ks))"
      using nn sb by (intro foldl_js_add_int) simp_all
    then have t: "?total = Finite (of_int (sum_list ks))" using h by simp
    have p0: "0 \<le> sum_list ks * f" using s0 f by simp
    have "\<bar>sum_list ks * f\<bar> < 2 ^ 53" using b p0 by simp
    then have "js_mul (Finite (of_int (sum_list ks))) (Finite (of_int f))
                 = Finite (of_int (sum_list ks * f))"
      by (rule js_mul_int)
    moreover have fp: "?fps = Finite (of_int f)" using h by simp
    ultimately have "js_ceil (js_mul ?total ?fps) = Finite (of_int (sum_list ks * f))"
      by (simp only: t js_ceil_int)
    with t show ?thesis by simp
  qed
  show ?thesis
    unfolding Let_def using ex md mc xt by blast
qed

text \<open>
  Witness: the example without a renderer, whose duration 2 and frame rate 30 are whole
  numbers; and the example with a renderer, which is asked for 60 frames.
\<close>

theorem renderVideo_mock_and_metadata_witness:
  "renderer (engine0 None) = None
   \<and> fst (renderVideo job1 example_params None (engine0 None, world0)) =
        Inr \<lparr>buffer_r = ''Mock video: {scenes}'', mimeType_r = ''video/mp4'',
             metadata_r = \<lparr>duration_m = Some (Finite 2), width_m = Finite 1920,
                            height_m = Finite 1080, fps_m = Some (Finite 30)\<rparr>\<rparr>
   \<and> map duration (scenes example_params) = map (\<lambda>k. Finite (of_int k)) [2]
   \<and> 0 \<le> (2::int) \<and> 1 \<le> (30::int) \<and> sum_list [2] * 30 < (2::int) ^ 53
   \<and> foldl js_add (Finite 0) (map duration (scenes example_params)) = Finite 2
   \<and> js_ceil (js_mul (foldl js_add (Finite 0) (map duration (scenes example_params)))
                (Finite 30)) = Finite 60
   \<and> map (durationInFrames \<circ> composition_o)
         (media_calls (snd (snd (renderVideo job1 example_params None
            (engine0 (Some ok_renderer), world0))))) = [Finite 60]
   \<and> fst (renderVideo job1 example_params None (engine0 (Some ok_renderer), world0)) =
        Inr \<lparr>buffer_r = ''video'', mimeType_r = ''video/mp4'',
             metadata_r = \<lparr>duration_m = Some (Finite 2), width_m = Finite 1920,
                            height_m = Finite 1080, fps_m = Some (Finite 30)\<rparr>\<rparr>"
proof -
  let ?out = "renderVideo job1 example_params None (engine0 (Some ok_renderer), world0)"
  have n: "renderer (engine0 None) = None" by (simp add: engine0_def)
  have s: "stringify_v job1 example_params = ''{scenes}''" by (simp add: job1_def)
  have d: "map duration (scenes example_params) = map (\<lambda>k. Finite (of_int k)) [2]"
    by (simp add: example_params_def)
  have f: "(case settings example_params of
              None \<Rightarrow> Finite 30
            | Some s \<Rightarrow>
                (case fps_s s of
                   None \<Rightarrow> Finite 30
                 | Some x \<Rightarrow> if x = Finite 0 \<or> x = NaN then Finite 30 else x))
           = Finite (of_int 30)"
    by (simp add: example_params_def)
  have w0: "media_calls world0 = []" by (simp add: world0_def)
  have l: "length (media_calls (snd (snd ?out))) = 1"
    by (simp add: engine_unfold engine_fixtures cacheKey_main)
  have r: "\<not> isl (fst ?out) \<and> buffer_r (projr (fst ?out)) = ''video''
         \<and> mimeType_r (projr (fst ?out)) = ''video/mp4''
         \<and> width_m (metadata_r (projr (fst ?out))) = Finite 1920
         \<and> height_m (metadata_r (projr (fst ?out))) = Finite 1080"
    by (simp add: engine_unfold engine_fixtures cacheKey_main)
  then have ro: "fst ?out = Inr (projr (fst ?out))" by simp
  note t = renderVideo_mock_and_metadata
    [where env = job1 and e = "engine0 None" and w = world0 and tc = None
       and params = example_params, unfolded Let_def f]
  note t' = renderVideo_mock_and_metadata
    [where env = job1 and e = "engine0 (Some ok_renderer)" and w = world0 and tc = None
       and params = example_params, unfolded Let_def f]
  have h: "map duration (scenes example_params) = map (\<lambda>k. Finite (of_int k)) [2]
         \<and> (\<forall>k\<in>set [2::int]. 0 \<le> k) \<and> Finite (of_int 30) = Finite (of_int 30)
         \<and> 1 \<le> (30::int) \<and> sum_list [2] * 30 < (2::int) ^ 53"
    using d by simp
  note x = t [THEN conjunct2, THEN conjunct2, THEN conjunct2, rule_format, OF h]
  have x1: "foldl js_add (Finite 0) (map duration (scenes example_params)) = Finite 2"
    using x [THEN conjunct1] by simp
  have x2: "js_ceil (js_mul (foldl js_add (Finite 0) (map duration (scenes example_params)))
                       (Finite 30)) = Finite 60"
    using x [THEN conjunct2] by simp
  have m: "map (durationInFrames \<circ> composition_o) (media_calls (snd (snd ?out))) = [Finite 60]"
  proof -
    from t' l w0 obtain opts where "media_calls (snd (snd ?out)) = [opts]"
      and "durationInFrames (composition_o opts)
             = js_ceil (js_mul (foldl js_add (Finite 0) (map duration (scenes example_params)))
                          (Finite (of_int 30)))"
      by auto
    then show ?thesis using x2 by simp
  qed
  have md: "duration_m (metadata_r (projr (fst ?out))) = Some (Finite 2)
          \<and> fps_m (metadata_r (projr (fst ?out))) = Some (Finite 30)"
    using t' [THEN conjunct2, THEN conjunct1, rule_format, OF ro] x1 by simp
  have rr: "fst ?out =
        Inr \<lparr>buffer_r = ''video'', mimeType_r = ''video/mp4'',
             metadata_r = \<lparr>duration_m = Some (Finite 2), width_m = Finite 1920,
                            height_m = Finite 1080, fps_m = Some (Finite 30)\<rparr>\<rparr>"
  proof -
    have "projr (fst ?out) =
        \<lparr>buffer_r = ''video'', mimeType_r = ''video/mp4'',
         metadata_r = \<lparr>duration_m = Some (Finite 2), width_m = Finite 1920,
                        height_m = Finite 1080, fps_m = Some (Finite 30)\<rparr>\<rparr>"
      using r md by (cases "projr (fst ?out)", cases "metadata_r (projr (fst ?out))") simp
    with ro show ?thesis by simp
  qed
  from t n s have a: "fst (renderVideo job1 example_params None (engine0 None, world0)) =
        Inr \<lparr>buffer_r = ''Mock video: {scenes}'', mimeType_r = ''video/mp4'',
             metadata_r = \<lparr>duration_m = Some (Finite 2), width_m = Finite 1920,
                            height_m = Finite 1080, fps_m = Some (Finite 30)\<rparr>\<rparr>"
    by simp
  show ?thesis using n a d x1 x2 m rr by simp
qed

text \<open>
  Counterexample to C7 as written: two scenes of 0.06 and 0.5 seconds at 25 frames per
  second. The renderer is asked for 15 frames, while the ceiling of the sum of the two
  durations times 25 is 14; and the duration in the metadata is not the sum of the two
  durations.
\<close>

theorem renderVideo_rounding_counterexample:
  "map duration (scenes rounding_params)
     = [Finite (1080863910568919 / 18014398509481984), Finite (1 / 2)]
   \<and> map (durationInFrames \<circ> composition_o)
         (media_calls (snd (snd (renderVideo job1 rounding_params None
            (engine0 (Some ok_renderer), world0))))) = [Finite 15]
   \<and> \<lceil>(1080863910568919 / 18014398509481984 + 1 / 2) * (25::rat)\<rceil> = 14
   \<and> map_sum id (duration_m \<circ> metadata_r)
         (fst (renderVideo job1 rounding_params None (engine0 None, world0)))
       = Inr (Some (Finite (1261007895663739 / 2251799813685248)))
   \<and> 1080863910568919 / 18014398509481984 + 1 / 2
       \<noteq> (1261007895663739 / 2251799813685248 :: rat)"
proof -
  let ?out = "renderVideo job1 rounding_params None (engine0 (Some ok_renderer), world0)"
  have d: "map duration (scenes rounding_params)
     = [Finite (1080863910568919 / 18014398509481984), Finite (1 / 2)]"
    by (simp add: rounding_params_eq)
  have f: "num_or (case settings rounding_params of None \<Rightarrow> None | Some s \<Rightarrow> fps_s s) (Finite 30)
             = Finite 25"
    by (simp add: rounding_params_eq num_or_def)
  have w0: "media_calls world0 = []" by (simp add: world0_def)
  have l: "length (media_calls (snd (snd ?out))) = 1"
    by (simp add: engine_unfold engine_fixtures cacheKey_main rounding_params_eq)
  have m: "map (durationInFrames \<circ> composition_o) (media_calls (snd (snd ?out))) = [Finite 15]"
  proof -
    from media_calls_video [of job1 rounding_params None "engine0 (Some ok_renderer)" world0]
      l w0
    obtain opts where "media_calls (snd (snd ?out)) = [opts]"
      and "durationInFrames (composition_o opts)
             = js_ceil (js_mul (totalDuration (scenes rounding_params))
                 (num_or (case settings rounding_params of None \<Rightarrow> None | Some s \<Rightarrow> fps_s s)
                    (Finite 30)))"
      by auto
    then show ?thesis by (simp add: f totalDuration_rounding frames_rounding)
  qed
  have n: "renderer (engine0 None) = None" by (simp add: engine0_def)
  have md: "map_sum id (duration_m \<circ> metadata_r)
         (fst (renderVideo job1 rounding_params None (engine0 None, world0)))
       = Inr (Some (Finite (1261007895663739 / 2251799813685248)))"
    unfolding mock_video [OF n] by (simp add: totalDuration_rounding)
  have c: "\<lceil>(1080863910568919 / 18014398509481984 + 1 / 2) * (25::rat)\<rceil> = 14"
    by code_simp
  have ne: "1080863910568919 / 18014398509481984 + 1 / 2
       \<noteq> (1261007895663739 / 2251799813685248 :: rat)"
    by simp
  show ?thesis using d m c md ne by blast
qed

text \<open>
  C8 (as amended). The cache key of \<^verbatim>\<open>bundle\<close> is the template name, a dash, and the hash
  of the source text alone: two calls have the same key exactly when their template
  names are equal and their source texts have equal hashes. So calls with identical name
  and source have the same key, and calls with different names never do, whatever the
  concatenation of name and source is.
\<close>

theorem cacheKey_eq_iff:
  "cacheKey n1 c1 = cacheKey n2 c2 \<longleftrightarrow> n1 = n2 \<and> hashCode c1 = hashCode c2"
proof
  assume "cacheKey n1 c1 = cacheKey n2 c2"
  then have "n1 @ CHR ''-'' # hashCode c1 = n2 @ CHR ''-'' # hashCode c2"
    by (simp add: cacheKey_def)
  then show "n1 = n2 \<and> hashCode c1 = hashCode c2"
    by (rule split_at_last) (rule hashCode_no_dash)+
next
  assume "n1 = n2 \<and> hashCode c1 = hashCode c2"
  then show "cacheKey n1 c1 = cacheKey n2 c2" by (simp add: cacheKey_def)
qed

text \<open>
  C8 as the claim states it fails: \<open>('ab', 'c')\<close> and \<open>('a', 'bc')\<close> have the same
  concatenation and different cache keys.
\<close>

theorem cacheKey_concat_counterexample:
  "''ab'' @ ''c'' = ''a'' @ ''bc''
   \<and> cacheKey ''ab'' ''c'' = ''ab-63''
   \<and> cacheKey ''a'' ''bc'' = ''a-c41''
   \<and> cacheKey ''ab'' ''c'' \<noteq> cacheKey ''a'' ''bc''"
  by (simp add: cacheKey_def hashCode_def hash_step_def charCodeAt_def nat_toString.simps
                digit_char_def)

end
